theory Spec2Isabelle
  imports Complex_Main
begin

text \<open>
  The MfxVTK plug-in (\<^verbatim>\<open>mfx_vtk_plugin.cpp\<close>): thirteen mesh effects over the VTK geometry
  kernel. Each effect declares parameters, may report that it is the identity for the
  current parameters, and cooks an input mesh into an output mesh. Most cooks set up a
  pipeline of kernel filters; the volume sampler has an algorithm of its own, a rejection
  loop with a budget of attempts. The kernel is not modelled: its filters, its distance
  function and its random sequence are parameters of the definitions below.
\<close>

section \<open>Numbers of the plug-in\<close>

text \<open>
  A C++ \<^verbatim>\<open>double\<close> is modelled by the value it denotes: a finite double by its real number,
  next to the two infinities and NaN. Arithmetic is exact (no rounding is modelled); the
  comparisons are the IEEE ones: every comparison with NaN is false.
\<close>

datatype double = Finite real | PosInf | NegInf | NaN

fun double_less :: "double \<Rightarrow> double \<Rightarrow> bool" where
  "double_less NaN y = False"
| "double_less x NaN = False"
| "double_less (Finite a) (Finite b) = (a < b)"
| "double_less (Finite a) PosInf = True"
| "double_less (Finite a) NegInf = False"
| "double_less PosInf y = False"
| "double_less NegInf NegInf = False"
| "double_less NegInf y = True"

fun double_ge :: "double \<Rightarrow> double \<Rightarrow> bool" where
  "double_ge NaN y = False"
| "double_ge x NaN = False"
| "double_ge (Finite a) (Finite b) = (a \<ge> b)"
| "double_ge (Finite a) PosInf = False"
| "double_ge (Finite a) NegInf = True"
| "double_ge PosInf y = True"
| "double_ge NegInf NegInf = True"
| "double_ge NegInf y = False"

text \<open>\<^verbatim>\<open>DBL_EPSILON\<close> of the C header \<^verbatim>\<open>cfloat\<close> for IEEE binary64: two to the power -52.\<close>

definition DBL_EPSILON :: double where
  "DBL_EPSILON = Finite (1 / 2 ^ 52)"

text \<open>\<^verbatim>\<open>bool is_positive_double(double x) { return x >= DBL_EPSILON; }\<close>\<close>

definition is_positive_double :: "double \<Rightarrow> bool" where
  "is_positive_double x = double_ge x DBL_EPSILON"

text \<open>
  \<^verbatim>\<open>static_cast<double>(a) / b\<close> for an \<^verbatim>\<open>int\<close> a and an integer b: both operands convert
  exactly; a division by zero gives an infinity (or NaN for 0/0), not a number.
\<close>

definition double_quotient :: "int \<Rightarrow> int \<Rightarrow> double" where
  "double_quotient a b =
     (if b \<noteq> 0 then Finite (real_of_int a / real_of_int b)
      else if a > 0 then PosInf else if a < 0 then NegInf else NaN)"

text \<open>
  \<^verbatim>\<open>static_cast<int>(std::sqrt(n))\<close> for a count n: the square root, truncated. It is computed
  here on the naturals, two bits at a time; \<open>sqrt_to_int_floor\<close> below shows that this is
  the truncated real square root.
\<close>

fun sqrt_nat :: "nat \<Rightarrow> nat" where
  "sqrt_nat n =
     (if n < 2 then n
      else (let r = 2 * sqrt_nat (n div 4) in if (r + 1) * (r + 1) \<le> n then r + 1 else r))"

definition sqrt_to_int :: "int \<Rightarrow> int" where
  "sqrt_to_int n = int (sqrt_nat (nat n))"

text \<open>
  \<^verbatim>\<open>10*number_of_points\<close> is a product of two \<^verbatim>\<open>int\<close>s. Beyond 32 bits it is computed here as
  the usual targets do, by two's-complement wrap-around.
\<close>

definition int32_mult :: "int \<Rightarrow> int \<Rightarrow> int" where
  "int32_mult a b = signed_take_bit 31 (a * b)"

section \<open>Meshes and the geometry kernel\<close>

text \<open>
  A \<^verbatim>\<open>vtkPolyData\<close>: the point positions, the four cell sequences (each cell a list of point
  indices) and the named arrays of point data. Point positions and point data are held in
  single precision; such values are modelled inside \<^typ>\<open>double\<close>.
\<close>

type_synonym point = "double \<times> double \<times> double"

type_synonym bounds = "double \<times> double \<times> double \<times> double \<times> double \<times> double"

record vtkPolyData =
  Points :: "point list"
  Verts :: "nat list list"
  Lines :: "nat list list"
  Polys :: "nat list list"
  Strips :: "nat list list"
  PointData :: "(string \<times> double list) list"

definition GetNumberOfPolys :: "vtkPolyData \<Rightarrow> int" where
  "GetNumberOfPolys m = int (length (Polys m))"

text \<open>\<^verbatim>\<open>vtkPolyData::New()\<close>: no points, no cells, no arrays.\<close>

definition vtkPolyData_New :: vtkPolyData where
  "vtkPolyData_New = \<lparr>Points = [], Verts = [], Lines = [], Polys = [], Strips = [], PointData = []\<rparr>"

text \<open>\<^verbatim>\<open>AddArray\<close>: an array of the same name is replaced, a new name is appended.\<close>

fun AddArray :: "string \<times> double list \<Rightarrow> (string \<times> double list) list \<Rightarrow> (string \<times> double list) list" where
  "AddArray a [] = [a]"
| "AddArray a (b # bs) = (if fst b = fst a then a # bs else b # AddArray a bs)"

text \<open>A value given to a setter of a filter.\<close>

datatype setting = B bool | I int | D double | I3 int int int

text \<open>
  Everything the plug-in code calls and does not define is a field of the environment:
  \<^item> \<open>vtk_filter\<close>: a filter of the geometry kernel, named by its class, run on its inputs
    (\<^verbatim>\<open>SetInputData\<close>, \<^verbatim>\<open>AddInputData\<close>, \<^verbatim>\<open>SetInputConnection\<close>) after the listed setter
    calls, in the order of the calls;
  \<^item> \<open>GetBounds\<close>: the bounding box \<^verbatim>\<open>(xmin, xmax, ymin, ymax, zmin, zmax)\<close> of a mesh;
  \<^item> \<open>EvaluateFunction\<close>: the signed distance of \<^verbatim>\<open>vtkImplicitPolyDataDistance\<close> to the
    mesh given to \<^verbatim>\<open>SetInput\<close>;
  \<^item> \<open>rng_New\<close>, \<open>rng_Next\<close>, \<open>rng_GetRangeValue\<close>: \<^verbatim>\<open>vtkMinimalStandardRandomSequence\<close>,
    its state after construction, its step and its reading;
  \<^item> \<open>ar_New\<close>, \<open>ar_Next\<close>, \<open>ar_GetRangeValue\<close>: the class \<^verbatim>\<open>AdditiveRecurrence<3>\<close> of
    \<^verbatim>\<open>utils.h\<close>, likewise;
  \<^item> \<open>to_float\<close>: the narrowing of a \<^verbatim>\<open>double\<close> to the \<^verbatim>\<open>float\<close> that \<^verbatim>\<open>vtkPoints\<close> and
    \<^verbatim>\<open>vtkFloatArray\<close> store;
  \<^item> \<open>junk_point\<close>, \<open>junk_value\<close>: what the storage of a freshly sized array holds at an
    index before anything is written there.
\<close>

record ('v, 'a) env =
  vtk_filter :: "string \<Rightarrow> (string \<times> setting) list \<Rightarrow> vtkPolyData list \<Rightarrow> vtkPolyData"
  GetBounds :: "vtkPolyData \<Rightarrow> bounds"
  EvaluateFunction :: "vtkPolyData \<Rightarrow> double \<Rightarrow> double \<Rightarrow> double \<Rightarrow> double"
  rng_New :: 'v
  rng_Next :: "'v \<Rightarrow> 'v"
  rng_GetRangeValue :: "'v \<Rightarrow> double \<Rightarrow> double \<Rightarrow> double"
  ar_New :: 'a
  ar_Next :: "'a \<Rightarrow> 'a"
  ar_GetRangeValue :: "'a \<Rightarrow> int \<Rightarrow> double \<Rightarrow> double \<Rightarrow> double"
  to_float :: "double \<Rightarrow> double"
  junk_point :: "nat \<Rightarrow> point"
  junk_value :: "nat \<Rightarrow> double"

datatype OfxStatus = kOfxStatOK | kOfxStatFailed

section \<open>Volume sampling\<close>

subsection \<open>The mesh behind the distance predicate\<close>

text \<open>
  \<^verbatim>\<open>int target_polycount = 1000 + static_cast<int>(std::sqrt(input_polycount));\<close> and
  \<^verbatim>\<open>double target_reduction = static_cast<double>(target_polycount) / input_polycount;\<close>
\<close>

definition target_polycount :: "int \<Rightarrow> int" where
  "target_polycount input_polycount = 1000 + sqrt_to_int input_polycount"

definition target_reduction :: "int \<Rightarrow> double" where
  "target_reduction input_polycount =
     double_quotient (target_polycount input_polycount) input_polycount"

text \<open>
  The first block of \<^verbatim>\<open>vtkCook_inner\<close>: the mesh handed to
  \<^verbatim>\<open>poly_data_distance->SetInput\<close>.
\<close>

definition distance_input ::
  "('v, 'a) env \<Rightarrow> vtkPolyData \<Rightarrow> bool \<Rightarrow> bool \<Rightarrow> vtkPolyData" where
  "distance_input E input_polydata auto_simplify assume_input_polydata_triangles =
     (if auto_simplify \<and> GetNumberOfPolys input_polydata > 100 then
        (let input_triangle_mesh =
               (if \<not> assume_input_polydata_triangles
                then vtk_filter E ''vtkTriangleFilter'' [] [input_polydata]
                else input_polydata);
             input_polycount = GetNumberOfPolys input_triangle_mesh
         in if double_less (target_reduction input_polycount) (Finite 1)
            then vtk_filter E ''vtkQuadricDecimation''
                   [(''TargetReduction'', D (target_reduction input_polycount))]
                   [input_triangle_mesh]
            else input_polydata)
      else input_polydata)"

text \<open>
  What a decimator of the kernel is asked for: \<^verbatim>\<open>TargetReduction\<close> is the fraction of the
  triangles to remove (a reduction of 0 leaves the mesh as it is, which is what the identity
  checks of the two decimation effects rely on), so of n triangles \<open>n * (1 - r)\<close> are to stay.
\<close>

definition polycount_requested :: "int \<Rightarrow> real \<Rightarrow> real" where
  "polycount_requested n r = real_of_int n * (1 - r)"

subsection \<open>The candidate generator\<close>

text \<open>
  The lambda \<^verbatim>\<open>get_random_uniform\<close>: it steps one of the two generators, which it holds by
  reference, and reads a value between \<^verbatim>\<open>low\<close> and \<^verbatim>\<open>high\<close>. The pair of generator states
  is passed along.
\<close>

definition get_random_uniform ::
  "('v, 'a) env \<Rightarrow> bool \<Rightarrow> 'v \<times> 'a \<Rightarrow> int \<Rightarrow> double \<Rightarrow> double \<Rightarrow> double \<times> ('v \<times> 'a)" where
  "get_random_uniform E distribute_uniformly g i low high =
     (if distribute_uniformly then
        (let custom = ar_Next E (snd g)
         in (ar_GetRangeValue E custom i low high, (fst g, custom)))
      else
        (let vtk = rng_Next E (fst g)
         in (rng_GetRangeValue E vtk low high, (vtk, snd g))))"

text \<open>The three draws at the head of the loop body: one candidate point.\<close>

definition draw_candidate ::
  "('v, 'a) env \<Rightarrow> bool \<Rightarrow> bounds \<Rightarrow> 'v \<times> 'a \<Rightarrow> point \<times> ('v \<times> 'a)" where
  "draw_candidate E distribute_uniformly bnds g =
     (case bnds of (b0, b1, b2, b3, b4, b5) \<Rightarrow>
        (let (x, g1) = get_random_uniform E distribute_uniformly g 0 b0 b1;
             (y, g2) = get_random_uniform E distribute_uniformly g1 1 b2 b3;
             (z, g3) = get_random_uniform E distribute_uniformly g2 2 b4 b5
         in ((x, y, z), g3)))"

subsection \<open>The rejection loop\<close>

record ('v, 'a) loop_state =
  ls_i :: int
  ls_iteration_count :: int
  ls_points :: "point list"
  ls_distance_arr :: "double list"
  ls_gen :: "'v \<times> 'a"

text \<open>
  \<^verbatim>\<open>SetPoint(i, x, y, z)\<close> and \<^verbatim>\<open>SetValue(i, distance)\<close> write slot \<open>i\<close> of arrays sized
  \<^verbatim>\<open>number_of_points\<close>; in the loop \<open>0 \<le> i < number_of_points\<close>, so the slot exists.
\<close>

definition loop_body ::
  "('v, 'a) env \<Rightarrow> bool \<Rightarrow> vtkPolyData \<Rightarrow> bounds \<Rightarrow> ('v, 'a) loop_state \<Rightarrow> ('v, 'a) loop_state" where
  "loop_body E distribute_uniformly surface bnds s =
     (case draw_candidate E distribute_uniformly bnds (ls_gen s) of ((x, y, z), g) \<Rightarrow>
        (let distance = EvaluateFunction E surface x y z;
             s1 = (if double_less distance (Finite 0)
                   then s\<lparr>ls_points := (ls_points s)[nat (ls_i s) := (to_float E x, to_float E y, to_float E z)],
                          ls_distance_arr := (ls_distance_arr s)[nat (ls_i s) := to_float E distance],
                          ls_i := ls_i s + 1\<rparr>
                   else s)
         in s1\<lparr>ls_gen := g, ls_iteration_count := ls_iteration_count s + 1\<rparr>))"

function rejection_loop ::
  "('v, 'a) env \<Rightarrow> bool \<Rightarrow> vtkPolyData \<Rightarrow> bounds \<Rightarrow> int \<Rightarrow> int \<Rightarrow> ('v, 'a) loop_state
     \<Rightarrow> ('v, 'a) loop_state" where
  "rejection_loop E distribute_uniformly surface bnds number_of_points budget s =
     (if ls_i s < number_of_points \<and> ls_iteration_count s < budget
      then rejection_loop E distribute_uniformly surface bnds number_of_points budget
             (loop_body E distribute_uniformly surface bnds s)
      else s)"
  by pat_completeness auto
termination
  by (relation "measure (\<lambda>(E, du, surface, bnds, n, budget, s). nat (budget - ls_iteration_count s))")
     (auto simp: loop_body_def Let_def split: prod.splits)

subsection \<open>Candidates and acceptance, for stating what the loop computes\<close>

text \<open>The first n candidates the loop would draw, starting from generator states g.\<close>

fun candidates :: "('v, 'a) env \<Rightarrow> bool \<Rightarrow> bounds \<Rightarrow> 'v \<times> 'a \<Rightarrow> nat \<Rightarrow> point list" where
  "candidates E distribute_uniformly bnds g 0 = []"
| "candidates E distribute_uniformly bnds g (Suc n) =
     (case draw_candidate E distribute_uniformly bnds g of
        (c, g') \<Rightarrow> c # candidates E distribute_uniformly bnds g' n)"

text \<open>The generator states after n candidates have been drawn, starting from g.\<close>

fun generator_after :: "('v, 'a) env \<Rightarrow> bool \<Rightarrow> bounds \<Rightarrow> 'v \<times> 'a \<Rightarrow> nat \<Rightarrow> 'v \<times> 'a" where
  "generator_after E distribute_uniformly bnds g 0 = g"
| "generator_after E distribute_uniformly bnds g (Suc n) =
     generator_after E distribute_uniformly bnds (snd (draw_candidate E distribute_uniformly bnds g)) n"

text \<open>The test of the loop body, \<^verbatim>\<open>distance < 0\<close>, as a predicate of the candidate.\<close>

definition signed_distance :: "('v, 'a) env \<Rightarrow> vtkPolyData \<Rightarrow> point \<Rightarrow> double" where
  "signed_distance E surface c = (case c of (x, y, z) \<Rightarrow> EvaluateFunction E surface x y z)"

definition accepted :: "('v, 'a) env \<Rightarrow> vtkPolyData \<Rightarrow> point \<Rightarrow> bool" where
  "accepted E surface c = double_less (signed_distance E surface c) (Finite 0)"

text \<open>What \<^verbatim>\<open>SetPoint\<close> and \<^verbatim>\<open>SetValue\<close> store for an accepted candidate.\<close>

definition stored_point :: "('v, 'a) env \<Rightarrow> point \<Rightarrow> point" where
  "stored_point E c = (case c of (x, y, z) \<Rightarrow> (to_float E x, to_float E y, to_float E z))"

definition stored_distance :: "('v, 'a) env \<Rightarrow> vtkPolyData \<Rightarrow> point \<Rightarrow> double" where
  "stored_distance E surface c = to_float E (signed_distance E surface c)"

text \<open>A point inside (or on the faces of) an axis-aligned box.\<close>

definition inside_bounds :: "bounds \<Rightarrow> point \<Rightarrow> bool" where
  "inside_bounds bnds c =
     (case bnds of (b0, b1, b2, b3, b4, b5) \<Rightarrow> case c of (x, y, z) \<Rightarrow>
        double_ge x b0 \<and> double_ge b1 x \<and> double_ge y b2 \<and> double_ge b3 y \<and>
        double_ge z b4 \<and> double_ge b5 z)"

text \<open>\<^verbatim>\<open>GetArray(name)\<close> on point data.\<close>

definition GetArray :: "(string \<times> double list) list \<Rightarrow> string \<Rightarrow> double list option" where
  "GetArray arrays name = map_of arrays name"

subsection \<open>The contract of a generator\<close>

text \<open>
  One call of \<^verbatim>\<open>get_random_uniform\<close> steps the selected generator and then reads it; the
  step and the reading, apart.
\<close>

definition generator_step :: "('v, 'a) env \<Rightarrow> bool \<Rightarrow> 'v \<times> 'a \<Rightarrow> 'v \<times> 'a" where
  "generator_step E distribute_uniformly g =
     (if distribute_uniformly then (fst g, ar_Next E (snd g)) else (rng_Next E (fst g), snd g))"

definition generator_read ::
  "('v, 'a) env \<Rightarrow> bool \<Rightarrow> 'v \<times> 'a \<Rightarrow> int \<Rightarrow> double \<Rightarrow> double \<Rightarrow> double" where
  "generator_read E distribute_uniformly g i low high =
     (if distribute_uniformly then ar_GetRangeValue E (snd g) i low high
      else rng_GetRangeValue E (fst g) low high)"

text \<open>Two finite doubles in order.\<close>

fun finite_le :: "double \<Rightarrow> double \<Rightarrow> bool" where
  "finite_le (Finite a) (Finite b) = (a \<le> b)"
| "finite_le x y = False"

text \<open>
  The selected generator keeps to the range it is given: whatever the number of steps
  since its construction, a reading of one of the three dimensions over a range of two
  finite doubles in order lies in that range.
\<close>

definition keeps_range :: "('v, 'a) env \<Rightarrow> bool \<Rightarrow> bool" where
  "keeps_range E distribute_uniformly =
     (\<forall>n i low high. 0 \<le> i \<and> i < 3 \<and> finite_le low high \<longrightarrow>
        double_ge
          (generator_read E distribute_uniformly
             ((generator_step E distribute_uniformly ^^ Suc n) (rng_New E, ar_New E)) i low high) low \<and>
        double_ge high
          (generator_read E distribute_uniformly
             ((generator_step E distribute_uniformly ^^ Suc n) (rng_New E, ar_New E)) i low high))"

text \<open>A bounding box of finite extent: per axis, two finite doubles in order.\<close>

definition proper_bounds :: "bounds \<Rightarrow> bool" where
  "proper_bounds bnds =
     (case bnds of (b0, b1, b2, b3, b4, b5) \<Rightarrow> finite_le b0 b1 \<and> finite_le b2 b3 \<and> finite_le b4 b5)"

subsection \<open>The contract of the narrowing\<close>

text \<open>
  The narrowing to single precision keeps the order of two doubles (it may make them
  equal), as rounding to the nearest \<^verbatim>\<open>float\<close> does.
\<close>

definition keeps_order :: "('v, 'a) env \<Rightarrow> bool" where
  "keeps_order E = (\<forall>a b. double_ge a b \<longrightarrow> double_ge (to_float E a) (to_float E b))"

text \<open>
  Bounds that the narrowing leaves as they are, as the bounds of a mesh whose points are
  held in single precision.
\<close>

definition single_precision_bounds :: "('v, 'a) env \<Rightarrow> bounds \<Rightarrow> bool" where
  "single_precision_bounds E bnds =
     (case bnds of (b0, b1, b2, b3, b4, b5) \<Rightarrow>
        to_float E b0 = b0 \<and> to_float E b1 = b1 \<and> to_float E b2 = b2 \<and>
        to_float E b3 = b3 \<and> to_float E b4 = b4 \<and> to_float E b5 = b5)"

subsection \<open>The cook\<close>

text \<open>
  \<^verbatim>\<open>SetNumberOfPoints(n)\<close> and \<^verbatim>\<open>SetNumberOfTuples(n)\<close> size an array to n slots and keep
  what the first slots hold; slots never written hold what the storage held.
\<close>

definition SetNumberOfTuples :: "(nat \<Rightarrow> 'x) \<Rightarrow> int \<Rightarrow> 'x list \<Rightarrow> 'x list" where
  "SetNumberOfTuples junk n xs =
     take (nat n) xs @ map junk [length xs ..< nat n]"

datatype message = Gave_up int int

record cook_result =
  status :: OfxStatus
  output_polydata :: vtkPolyData
  printed :: "message list"

text \<open>The state in which \<^verbatim>\<open>vtkCook_inner\<close> leaves its loop.\<close>

definition sampler_loop ::
  "('v, 'a) env \<Rightarrow> vtkPolyData \<Rightarrow> int \<Rightarrow> bool \<Rightarrow> bool \<Rightarrow> bool \<Rightarrow> ('v, 'a) loop_state" where
  "sampler_loop E input_polydata number_of_points distribute_uniformly auto_simplify
       assume_input_polydata_triangles =
     rejection_loop E distribute_uniformly
       (distance_input E input_polydata auto_simplify assume_input_polydata_triangles)
       (GetBounds E input_polydata) number_of_points (int32_mult 10 number_of_points)
       \<lparr>ls_i = 0, ls_iteration_count = 0,
        ls_points = SetNumberOfTuples (junk_point E) number_of_points [],
        ls_distance_arr = SetNumberOfTuples (junk_value E) number_of_points [],
        ls_gen = (rng_New E, ar_New E)\<rparr>"

text \<open>
  \<^verbatim>\<open>vtkCook_inner\<close>. The output mesh holds the two arrays by reference from
  \<^verbatim>\<open>SetPoints\<close> and \<^verbatim>\<open>AddArray\<close> on, so it ends with their final contents. The text of the
  warning is kept as its two numbers.
\<close>

definition vtkCook_inner ::
  "('v, 'a) env \<Rightarrow> vtkPolyData \<Rightarrow> vtkPolyData \<Rightarrow> int \<Rightarrow> bool \<Rightarrow> bool \<Rightarrow> bool \<Rightarrow> cook_result" where
  "vtkCook_inner E input_polydata output number_of_points distribute_uniformly auto_simplify
       assume_input_polydata_triangles =
     (let s = sampler_loop E input_polydata number_of_points distribute_uniformly auto_simplify
                assume_input_polydata_triangles;
          gave_up = ls_i s < number_of_points;
          points = (if gave_up then SetNumberOfTuples (junk_point E) (ls_i s) (ls_points s)
                    else ls_points s);
          distance_arr = (if gave_up then SetNumberOfTuples (junk_value E) (ls_i s) (ls_distance_arr s)
                          else ls_distance_arr s)
      in \<lparr>status = kOfxStatOK,
          output_polydata = output\<lparr>Points := points,
                                   PointData := AddArray (''distance'', distance_arr) (PointData output)\<rparr>,
          printed = (if gave_up then [Gave_up (ls_iteration_count s) (ls_i s)] else [])\<rparr>)"



subsection \<open>The accepted candidates\<close>

text \<open>
  The candidates still to be accepted from a loop state on: of those the budget still
  allows, the ones that pass the test, up to the number of free slots.
\<close>

definition remaining ::
  "('v, 'a) env \<Rightarrow> bool \<Rightarrow> vtkPolyData \<Rightarrow> bounds \<Rightarrow> int \<Rightarrow> int \<Rightarrow> ('v, 'a) loop_state \<Rightarrow> point list" where
  "remaining E distribute_uniformly surface bnds number_of_points budget s =
     take (nat (number_of_points - ls_i s))
       (filter (accepted E surface)
          (candidates E distribute_uniformly bnds (ls_gen s) (nat (budget - ls_iteration_count s))))"

text \<open>The candidates of a whole cook, and those of them that pass the test.\<close>

definition cook_candidates ::
  "('v, 'a) env \<Rightarrow> vtkPolyData \<Rightarrow> int \<Rightarrow> bool \<Rightarrow> point list" where
  "cook_candidates E input_polydata number_of_points distribute_uniformly =
     candidates E distribute_uniformly (GetBounds E input_polydata) (rng_New E, ar_New E)
       (nat (int32_mult 10 number_of_points))"

definition cook_accepted ::
  "('v, 'a) env \<Rightarrow> vtkPolyData \<Rightarrow> int \<Rightarrow> bool \<Rightarrow> bool \<Rightarrow> bool \<Rightarrow> point list" where
  "cook_accepted E input_polydata number_of_points distribute_uniformly auto_simplify
       assume_input_polydata_triangles =
     take (nat number_of_points)
       (filter (accepted E (distance_input E input_polydata auto_simplify assume_input_polydata_triangles))
          (cook_candidates E input_polydata number_of_points distribute_uniformly))"

text \<open>
  The number of loop iterations that a sequence of test results allows while \<open>free\<close> slots
  are left: the loop stops at the end of the sequence or when the last slot is filled.
\<close>

fun attempts :: "nat \<Rightarrow> bool list \<Rightarrow> nat" where
  "attempts free [] = 0"
| "attempts free (b # bs) =
     (if free = 0 then 0 else Suc (attempts (if b then free - 1 else free) bs))"

subsection \<open>The additive recurrence\<close>

text \<open>
  Modelled from the spec: the class \<^verbatim>\<open>AdditiveRecurrence<3>\<close> of \<^verbatim>\<open>utils.h\<close>, which is not
  among the sources. The specification words it as a deterministic low-discrepancy
  3-dimensional additive-recurrence sequence, one irrational increment per dimension,
  wrapped modulo 1, mapped into the bounding box per axis. The increments \<open>alpha\<close> and the
  start are not given there and are parameters; the state is the current point of the unit
  cube, one coordinate per dimension.
\<close>

definition AdditiveRecurrence_Next :: "real list \<Rightarrow> real list \<Rightarrow> real list" where
  "AdditiveRecurrence_Next alpha xs = map (\<lambda>(x, a). frac (x + a)) (zip xs alpha)"

definition AdditiveRecurrence_GetRangeValue :: "real list \<Rightarrow> int \<Rightarrow> double \<Rightarrow> double \<Rightarrow> double" where
  "AdditiveRecurrence_GetRangeValue xs i low high =
     (case (low, high) of
        (Finite lo, Finite hi) \<Rightarrow>
          if 0 \<le> i \<and> nat i < length xs then Finite (lo + xs ! nat i * (hi - lo)) else NaN
      | _ \<Rightarrow> NaN)"

text \<open>An environment whose additive recurrence is the one above.\<close>

definition with_AdditiveRecurrence ::
  "real list \<Rightarrow> real list \<Rightarrow> ('v, 'a) env \<Rightarrow> ('v, real list) env" where
  "with_AdditiveRecurrence alpha start E =
     \<lparr>vtk_filter = vtk_filter E, GetBounds = GetBounds E, EvaluateFunction = EvaluateFunction E,
      rng_New = rng_New E, rng_Next = rng_Next E, rng_GetRangeValue = rng_GetRangeValue E,
      ar_New = start, ar_Next = AdditiveRecurrence_Next alpha,
      ar_GetRangeValue = AdditiveRecurrence_GetRangeValue,
      to_float = to_float E, junk_point = junk_point E, junk_value = junk_value E\<rparr>"

text \<open>
  The recurrence in closed form: the state after n steps, and the k-th candidate that the
  three calls of the loop body read from it, a step before each reading.
\<close>

definition recurrence_state :: "real list \<Rightarrow> real list \<Rightarrow> nat \<Rightarrow> real list" where
  "recurrence_state alpha start n = map (\<lambda>(x, a). frac (x + real n * a)) (zip start alpha)"

definition recurrence_candidate :: "real list \<Rightarrow> real list \<Rightarrow> bounds \<Rightarrow> nat \<Rightarrow> point" where
  "recurrence_candidate alpha start bnds k =
     (case bnds of (b0, b1, b2, b3, b4, b5) \<Rightarrow>
        (AdditiveRecurrence_GetRangeValue (recurrence_state alpha start (3 * k + 1)) 0 b0 b1,
         AdditiveRecurrence_GetRangeValue (recurrence_state alpha start (3 * k + 2)) 1 b2 b3,
         AdditiveRecurrence_GetRangeValue (recurrence_state alpha start (3 * k + 3)) 2 b4 b5))"

section \<open>The effects\<close>








record DecimatePro_params =
  dp_TargetReduction :: double
  dp_PreserveTopology :: bool
  dp_FeatureAngle :: double
  dp_Splitting :: bool
  dp_SplitAngle :: double
  dp_MaximumError :: double
  dp_AbsoluteError :: bool
  dp_BoundaryVertexDeletion :: bool
  dp_InflectionPointRatio :: double
  dp_Degree :: int

record QuadricDecimation_params =
  qd_TargetReduction :: double
  qd_VolumePreservation :: bool


record FillHoles_params =
  fh_HoleSize :: double



subsection \<open>Identity checks\<close>

definition VtkDecimateProEffect_vtkIsIdentity :: "DecimatePro_params \<Rightarrow> bool" where
  "VtkDecimateProEffect_vtkIsIdentity ps =
     (let target_reduction = dp_TargetReduction ps in \<not> is_positive_double target_reduction)"

definition VtkQuadricDecimationEffect_vtkIsIdentity :: "QuadricDecimation_params \<Rightarrow> bool" where
  "VtkQuadricDecimationEffect_vtkIsIdentity ps =
     (let target_reduction = qd_TargetReduction ps in \<not> is_positive_double target_reduction)"

text \<open>The check of Fill holes also prints the hole size and the epsilon; only its result is modelled.\<close>

definition VtkFillHolesEffect_vtkIsIdentity :: "FillHoles_params \<Rightarrow> bool" where
  "VtkFillHolesEffect_vtkIsIdentity ps =
     (let hole_size = fh_HoleSize ps in \<not> is_positive_double hole_size)"




subsection \<open>Cooking\<close>


















subsection \<open>Cooking on objects\<close>




subsection \<open>What the identity checks rely on\<close>





section \<open>A small environment for concrete runs\<close>

text \<open>
  An environment to run the definitions in: every filter hands its first input on, the
  bounding box is the unit cube, the distance to any surface is the constant d, both
  generators count their steps and read the lower end of the range, narrowing changes
  nothing, and fresh storage holds NaN.
\<close>

definition unit_env :: "double \<Rightarrow> (nat, nat) env" where
  "unit_env d =
     \<lparr>vtk_filter = (\<lambda>name settings inputs. case inputs of [] \<Rightarrow> vtkPolyData_New | m # ms \<Rightarrow> m),
      GetBounds = (\<lambda>m. (Finite 0, Finite 1, Finite 0, Finite 1, Finite 0, Finite 1)),
      EvaluateFunction = (\<lambda>m x y z. d),
      rng_New = 0, rng_Next = Suc, rng_GetRangeValue = (\<lambda>g low high. low),
      ar_New = 0, ar_Next = Suc, ar_GetRangeValue = (\<lambda>g i low high. low),
      to_float = (\<lambda>x. x),
      junk_point = (\<lambda>k. (NaN, NaN, NaN)), junk_value = (\<lambda>k. NaN)\<rparr>"

text \<open>
  The same environment with a bounding box that differs from axis to axis and a narrowing
  that does round: down to the next multiple of a quarter.
\<close>

fun to_quarters :: "double \<Rightarrow> double" where
  "to_quarters (Finite x) = Finite (of_int \<lfloor>4 * x\<rfloor> / 4)"
| "to_quarters x = x"

definition box_env :: "double \<Rightarrow> (nat, nat) env" where
  "box_env d =
     (unit_env d)\<lparr>GetBounds :=
        (\<lambda>m. (Finite 0, Finite 1, Finite 2, Finite 4, Finite (- 3), Finite (- 1))),
        to_float := to_quarters\<rparr>"

text \<open>One triangle on three points.\<close>

definition triangle_mesh :: vtkPolyData where
  "triangle_mesh =
     \<lparr>Points = [(Finite 0, Finite 0, Finite 0), (Finite 1, Finite 0, Finite 0), (Finite 0, Finite 1, Finite 0)],
      Verts = [], Lines = [], Polys = [[0, 1, 2]], Strips = [], PointData = []\<rparr>"

text \<open>A mesh of k triangles on three points.\<close>

definition triangles_mesh :: "nat \<Rightarrow> vtkPolyData" where
  "triangles_mesh k =
     \<lparr>Points = [(Finite 0, Finite 0, Finite 0), (Finite 1, Finite 0, Finite 0), (Finite 0, Finite 1, Finite 0)],
      Verts = [], Lines = [], Polys = replicate k [0, 1, 2], Strips = [], PointData = []\<rparr>"








section \<open>The rejection loop, step by step\<close>

declare rejection_loop.simps [simp del]

lemma loop_body_cases:
  assumes "draw_candidate E du bnds (ls_gen s) = (c, g)"
  shows "loop_body E du surface bnds s =
     (if accepted E surface c
      then s\<lparr>ls_points := (ls_points s)[nat (ls_i s) := stored_point E c],
             ls_distance_arr := (ls_distance_arr s)[nat (ls_i s) := stored_distance E surface c],
             ls_i := ls_i s + 1, ls_gen := g, ls_iteration_count := ls_iteration_count s + 1\<rparr>
      else s\<lparr>ls_gen := g, ls_iteration_count := ls_iteration_count s + 1\<rparr>)"
  using assms
  by (cases c) (simp add: loop_body_def Let_def accepted_def signed_distance_def
      stored_point_def stored_distance_def)

lemma rejection_loop_exit:
  "\<not> (ls_i (rejection_loop E du surface bnds N budget s) < N \<and>
       ls_iteration_count (rejection_loop E du surface bnds N budget s) < budget)"
  by (induction E du surface bnds N budget s rule: rejection_loop.induct)
     (simp add: rejection_loop.simps)

lemma rejection_loop_count_le:
  "ls_iteration_count s \<le> budget \<Longrightarrow>
   ls_iteration_count (rejection_loop E du surface bnds N budget s) \<le> budget"
proof (induction E du surface bnds N budget s rule: rejection_loop.induct)
  case (1 E du surface bnds N budget s)
  show ?case
  proof (cases "ls_i s < N \<and> ls_iteration_count s < budget")
    case True
    obtain c g where d: "draw_candidate E du bnds (ls_gen s) = (c, g)"
      by (cases "draw_candidate E du bnds (ls_gen s)")
    have "ls_iteration_count (loop_body E du surface bnds s) \<le> budget"
      using True by (simp add: loop_body_cases [OF d])
    with "1.IH" True show ?thesis
      by (simp add: rejection_loop.simps [of E du surface bnds N budget s])
  next
    case False
    with "1.prems" show ?thesis
      by (auto simp: rejection_loop.simps [of E du surface bnds N budget s])
  qed
qed

lemma rejection_loop_spec:
  assumes "0 \<le> ls_i s" and "ls_i s \<le> N"
    and "length (ls_points s) = nat N" and "length (ls_distance_arr s) = nat N"
  shows "ls_i (rejection_loop E du surface bnds N budget s) =
           ls_i s + int (length (remaining E du surface bnds N budget s)) \<and>
         ls_points (rejection_loop E du surface bnds N budget s) =
           take (nat (ls_i s)) (ls_points s)
           @ map (stored_point E) (remaining E du surface bnds N budget s)
           @ drop (nat (ls_i s) + length (remaining E du surface bnds N budget s)) (ls_points s) \<and>
         ls_distance_arr (rejection_loop E du surface bnds N budget s) =
           take (nat (ls_i s)) (ls_distance_arr s)
           @ map (stored_distance E surface) (remaining E du surface bnds N budget s)
           @ drop (nat (ls_i s) + length (remaining E du surface bnds N budget s)) (ls_distance_arr s)"
  using assms
proof (induction E du surface bnds N budget s rule: rejection_loop.induct)
  case (1 E du surface bnds N budget s)
  let ?i = "ls_i s" and ?t = "ls_iteration_count s"
  show ?case
  proof (cases "?i < N \<and> ?t < budget")
    case False
    then have "remaining E du surface bnds N budget s = []"
      using "1.prems" by (auto simp: remaining_def)
    with False show ?thesis
      by (auto simp: rejection_loop.simps [of E du surface bnds N budget s])
  next
    case True
    obtain c g where d: "draw_candidate E du bnds (ls_gen s) = (c, g)"
      by (cases "draw_candidate E du bnds (ls_gen s)")
    let ?s' = "loop_body E du surface bnds s"
    have unfold: "rejection_loop E du surface bnds N budget s = rejection_loop E du surface bnds N budget ?s'"
      using True by (simp add: rejection_loop.simps [of E du surface bnds N budget s])
    have fuel: "nat (budget - ?t) = Suc (nat (budget - (?t + 1)))"
      using True by linarith
    have cands: "candidates E du bnds (ls_gen s) (nat (budget - ?t)) =
        c # candidates E du bnds g (nat (budget - (?t + 1)))"
      by (simp only: fuel candidates.simps d prod.case)
    show ?thesis
    proof (cases "accepted E surface c")
      case False
      have s': "?s' = s\<lparr>ls_gen := g, ls_iteration_count := ?t + 1\<rparr>"
        using False by (simp add: loop_body_cases [OF d])
      have rem: "remaining E du surface bnds N budget ?s' = remaining E du surface bnds N budget s"
        using False by (simp add: remaining_def s' cands)
      from "1.IH" [OF True] "1.prems" show ?thesis
        unfolding unfold rem by (simp add: s')
    next
      case acc: True
      have s': "?s' = s\<lparr>ls_points := (ls_points s)[nat ?i := stored_point E c],
             ls_distance_arr := (ls_distance_arr s)[nat ?i := stored_distance E surface c],
             ls_i := ?i + 1, ls_gen := g, ls_iteration_count := ?t + 1\<rparr>"
        using acc by (simp add: loop_body_cases [OF d])
      have room: "nat (N - ?i) = Suc (nat (N - (?i + 1)))"
        using True by linarith
      have rem: "remaining E du surface bnds N budget s = c # remaining E du surface bnds N budget ?s'"
        using acc by (simp add: remaining_def s' cands room)
      have ih: "ls_i (rejection_loop E du surface bnds N budget ?s') =
           ls_i ?s' + int (length (remaining E du surface bnds N budget ?s')) \<and>
         ls_points (rejection_loop E du surface bnds N budget ?s') =
           take (nat (ls_i ?s')) (ls_points ?s')
           @ map (stored_point E) (remaining E du surface bnds N budget ?s')
           @ drop (nat (ls_i ?s') + length (remaining E du surface bnds N budget ?s')) (ls_points ?s') \<and>
         ls_distance_arr (rejection_loop E du surface bnds N budget ?s') =
           take (nat (ls_i ?s')) (ls_distance_arr ?s')
           @ map (stored_distance E surface) (remaining E du surface bnds N budget ?s')
           @ drop (nat (ls_i ?s') + length (remaining E du surface bnds N budget ?s')) (ls_distance_arr ?s')"
        using "1.IH" [OF True] "1.prems" True by (simp add: s')
      have i': "nat (?i + 1) = Suc (nat ?i)" using "1.prems" by linarith
      have lt: "nat ?i < length (ls_points s)" "nat ?i < length (ls_distance_arr s)"
        using "1.prems" True by simp_all
      have tk: "\<And>xs v. nat ?i < length xs \<Longrightarrow> take (Suc (nat ?i)) (xs[nat ?i := v]) = take (nat ?i) xs @ [v]"
        by (simp add: take_Suc_conv_app_nth)
      show ?thesis
        unfolding unfold rem using ih lt
        by (simp add: s' i' tk)
    qed
  qed
qed

lemma rejection_loop_stop:
  "\<not> ls_i s < N \<or> \<not> ls_iteration_count s < budget \<Longrightarrow>
   rejection_loop E du surface bnds N budget s = s"
  by (auto simp: rejection_loop.simps [of E du surface bnds N budget s])

lemma rejection_loop_count_max:
  "ls_iteration_count (rejection_loop E du surface bnds N budget s) \<le> max (ls_iteration_count s) budget"
proof (cases "ls_iteration_count s \<le> budget")
  case True
  then show ?thesis using rejection_loop_count_le [OF True] by simp
next
  case False
  then show ?thesis by (simp add: rejection_loop.simps [of E du surface bnds N budget s])
qed

lemma SetNumberOfTuples_Nil: "SetNumberOfTuples junk n [] = map junk [0 ..< nat n]"
  by (simp add: SetNumberOfTuples_def)

lemma SetNumberOfTuples_shrink: "nat n \<le> length xs \<Longrightarrow> SetNumberOfTuples junk n xs = take (nat n) xs"
  by (simp add: SetNumberOfTuples_def)

lemma sampler_loop_spec:
  fixes E :: "('v, 'a) env" and m N du auto tri
  defines "acc \<equiv> cook_accepted E m N du auto tri"
  shows "ls_i (sampler_loop E m N du auto tri) = int (length acc) \<and>
         ls_points (sampler_loop E m N du auto tri) =
           map (stored_point E) acc @ drop (length acc) (map (junk_point E) [0 ..< nat N]) \<and>
         ls_distance_arr (sampler_loop E m N du auto tri) =
           map (stored_distance E (distance_input E m auto tri)) acc
           @ drop (length acc) (map (junk_value E) [0 ..< nat N])"
proof -
  let ?init = "\<lparr>ls_i = 0, ls_iteration_count = 0,
        ls_points = SetNumberOfTuples (junk_point E) N [],
        ls_distance_arr = SetNumberOfTuples (junk_value E) N [],
        ls_gen = (rng_New E, ar_New E)\<rparr>"
  let ?surface = "distance_input E m auto tri"
  let ?budget = "int32_mult 10 N"
  have rem: "remaining E du ?surface (GetBounds E m) N ?budget ?init = acc"
    by (simp add: remaining_def acc_def cook_accepted_def cook_candidates_def)
  show ?thesis
  proof (cases "0 \<le> N")
    case True
    have "ls_i (rejection_loop E du ?surface (GetBounds E m) N ?budget ?init) =
           ls_i ?init + int (length acc) \<and>
         ls_points (rejection_loop E du ?surface (GetBounds E m) N ?budget ?init) =
           take (nat (ls_i ?init)) (ls_points ?init)
           @ map (stored_point E) acc
           @ drop (nat (ls_i ?init) + length acc) (ls_points ?init) \<and>
         ls_distance_arr (rejection_loop E du ?surface (GetBounds E m) N ?budget ?init) =
           take (nat (ls_i ?init)) (ls_distance_arr ?init)
           @ map (stored_distance E ?surface) acc
           @ drop (nat (ls_i ?init) + length acc) (ls_distance_arr ?init)"
      using rejection_loop_spec [of ?init N E du ?surface "GetBounds E m" ?budget] True
      unfolding rem by (simp add: SetNumberOfTuples_Nil)
    then show ?thesis
      by (simp add: sampler_loop_def SetNumberOfTuples_Nil)
  next
    case False
    then have "acc = []" by (simp add: acc_def cook_accepted_def)
    with False show ?thesis
      by (simp add: sampler_loop_def SetNumberOfTuples_Nil rejection_loop_stop)
  qed
qed

lemma cook_accepted_length: "length (cook_accepted E m N du auto tri) \<le> nat N"
  by (simp add: cook_accepted_def)

lemma vtkCook_inner_output:
  fixes E :: "('v, 'a) env" and m N du auto tri
  defines "acc \<equiv> cook_accepted E m N du auto tri"
  shows "vtkCook_inner E m out N du auto tri =
     \<lparr>status = kOfxStatOK,
      output_polydata = out\<lparr>Points := map (stored_point E) acc,
        PointData := AddArray (''distance'', map (stored_distance E (distance_input E m auto tri)) acc)
                       (PointData out)\<rparr>,
      printed = (if int (length acc) < N
                 then [Gave_up (ls_iteration_count (sampler_loop E m N du auto tri)) (int (length acc))]
                 else [])\<rparr>"
proof -
  have len: "length acc \<le> nat N" by (simp add: acc_def cook_accepted_length)
  show ?thesis
  proof (cases "int (length acc) < N")
    case True
    then show ?thesis
      using len
      by (simp add: vtkCook_inner_def Let_def sampler_loop_spec [of E m N du auto tri, folded acc_def]
          SetNumberOfTuples_shrink)
  next
    case False
    with len have "length acc = nat N" by linarith
    with False show ?thesis
      by (simp add: vtkCook_inner_def Let_def sampler_loop_spec [of E m N du auto tri, folded acc_def])
  qed
qed

lemma int32_mult_exact: "0 \<le> N \<Longrightarrow> N \<le> 214748364 \<Longrightarrow> int32_mult 10 N = 10 * N"
  by (simp add: int32_mult_def signed_take_bit_int_eq_self)

lemma int32_mult_le: "0 \<le> N \<Longrightarrow> int32_mult 10 N \<le> 10 * N"
  by (simp add: int32_mult_def signed_take_bit_int_less_eq_self_iff)

lemma accepted_unit_env [simp]: "accepted (unit_env d) surface c = double_less d (Finite 0)"
  by (simp add: accepted_def signed_distance_def unit_env_def split: prod.splits)

lemma GetArray_AddArray: "GetArray (AddArray (name, xs) arrays) name = Some xs"
  by (induction arrays) (simp_all add: GetArray_def)

lemma double_less_not_ge: "double_less a b \<Longrightarrow> \<not> double_ge a b"
  by (cases a; cases b) simp_all

lemma length_candidates: "length (candidates E du bnds g n) = n"
  by (induction n arbitrary: g) (simp_all split: prod.splits)

lemma rejection_loop_attempts:
  "ls_iteration_count (rejection_loop E du surface bnds N budget s) =
     ls_iteration_count s +
     int (attempts (nat (N - ls_i s))
            (map (accepted E surface)
               (candidates E du bnds (ls_gen s) (nat (budget - ls_iteration_count s)))))"
proof (induction E du surface bnds N budget s rule: rejection_loop.induct)
  case (1 E du surface bnds N budget s)
  let ?i = "ls_i s" and ?t = "ls_iteration_count s"
  show ?case
  proof (cases "?i < N \<and> ?t < budget")
    case False
    then have "attempts (nat (N - ?i))
            (map (accepted E surface) (candidates E du bnds (ls_gen s) (nat (budget - ?t)))) = 0"
    proof (cases "?i < N")
      case True
      with False have "nat (budget - ?t) = 0" by simp
      then show ?thesis by simp
    next
      case False
      then have "nat (N - ?i) = 0" by simp
      then show ?thesis
        by (cases "map (accepted E surface) (candidates E du bnds (ls_gen s) (nat (budget - ?t)))") simp_all
    qed
    with False show ?thesis by (simp add: rejection_loop_stop)
  next
    case True
    obtain c g where d: "draw_candidate E du bnds (ls_gen s) = (c, g)"
      by (cases "draw_candidate E du bnds (ls_gen s)")
    let ?s' = "loop_body E du surface bnds s"
    have unfold: "rejection_loop E du surface bnds N budget s = rejection_loop E du surface bnds N budget ?s'"
      using True by (simp add: rejection_loop.simps [of E du surface bnds N budget s])
    have fuel: "nat (budget - ?t) = Suc (nat (budget - (?t + 1)))"
      using True by linarith
    have cands: "candidates E du bnds (ls_gen s) (nat (budget - ?t)) =
        c # candidates E du bnds g (nat (budget - (?t + 1)))"
      by (simp only: fuel candidates.simps d prod.case)
    have free: "nat (N - ?i) \<noteq> 0" "nat (N - ?i) - 1 = nat (N - (?i + 1))"
      using True by linarith+
    have s': "ls_iteration_count ?s' = ?t + 1" "ls_gen ?s' = g"
      "ls_i ?s' = (if accepted E surface c then ?i + 1 else ?i)"
      by (simp_all add: loop_body_cases [OF d])
    show ?thesis
      unfolding unfold "1.IH" [OF True] s' cands
      using free by simp
  qed
qed

lemma sampler_loop_attempts:
  "ls_iteration_count (sampler_loop E m N du auto tri) =
     int (attempts (nat N)
            (map (accepted E (distance_input E m auto tri)) (cook_candidates E m N du)))"
  by (simp add: sampler_loop_def rejection_loop_attempts cook_candidates_def)

lemma vtkCook_inner_spec:
  "vtkCook_inner E m out N du auto tri =
     \<lparr>status = kOfxStatOK,
      output_polydata = out\<lparr>Points := map (stored_point E) (cook_accepted E m N du auto tri),
        PointData := AddArray (''distance'',
                        map (stored_distance E (distance_input E m auto tri)) (cook_accepted E m N du auto tri))
                       (PointData out)\<rparr>,
      printed = (if int (length (cook_accepted E m N du auto tri)) < N
                 then [Gave_up (int (attempts (nat N)
                                   (map (accepted E (distance_input E m auto tri)) (cook_candidates E m N du))))
                         (int (length (cook_accepted E m N du auto tri)))]
                 else [])\<rparr>"
  by (simp add: vtkCook_inner_output sampler_loop_attempts)

lemma draw_candidate_uniform:
  assumes "ar_Next E1 = ar_Next E2" and "ar_GetRangeValue E1 = ar_GetRangeValue E2"
  shows "fst (draw_candidate E1 True bnds (v1, a)) = fst (draw_candidate E2 True bnds (v2, a)) \<and>
         snd (snd (draw_candidate E1 True bnds (v1, a))) = snd (snd (draw_candidate E2 True bnds (v2, a)))"
  using assms
  by (cases bnds) (simp add: draw_candidate_def get_random_uniform_def Let_def)

lemma candidates_uniform:
  assumes "ar_Next E1 = ar_Next E2" and "ar_GetRangeValue E1 = ar_GetRangeValue E2"
  shows "candidates E1 True bnds (v1, a) n = candidates E2 True bnds (v2, a) n"
proof (induction n arbitrary: v1 v2 a)
  case 0
  show ?case by simp
next
  case (Suc n)
  obtain c1 w1 a1 where d1: "draw_candidate E1 True bnds (v1, a) = (c1, (w1, a1))"
    by (metis surj_pair)
  obtain c2 w2 a2 where d2: "draw_candidate E2 True bnds (v2, a) = (c2, (w2, a2))"
    by (metis surj_pair)
  from draw_candidate_uniform [OF assms, of bnds v1 a v2] d1 d2
  have "c1 = c2" "a1 = a2" by simp_all
  with Suc [of w1 a1 w2] d1 d2 show ?case by simp
qed

lemma vtkCook_inner_uniform:
  assumes "vtk_filter E1 = vtk_filter E2" and "GetBounds E1 = GetBounds E2"
    and "EvaluateFunction E1 = EvaluateFunction E2" and "to_float E1 = to_float E2"
    and "ar_New E1 = ar_New E2" and "ar_Next E1 = ar_Next E2"
    and "ar_GetRangeValue E1 = ar_GetRangeValue E2"
  shows "vtkCook_inner E1 m out N True auto tri = vtkCook_inner E2 m out N True auto tri"
proof -
  have surface: "distance_input E1 m auto tri = distance_input E2 m auto tri"
    by (simp only: distance_input_def assms(1))
  have acc: "accepted E1 = accepted E2"
    using assms(3) by (simp add: fun_eq_iff accepted_def signed_distance_def)
  have cands: "cook_candidates E1 m N True = cook_candidates E2 m N True"
    using assms(2,5) candidates_uniform [OF assms(6,7)]
    by (simp add: cook_candidates_def)
  have accd: "cook_accepted E1 m N True auto tri = cook_accepted E2 m N True auto tri"
    by (simp add: cook_accepted_def surface acc cands)
  have st: "stored_point E1 = stored_point E2"
    "stored_distance E1 = stored_distance E2"
    using assms(3,4) by (simp_all add: fun_eq_iff stored_point_def stored_distance_def signed_distance_def)
  show ?thesis
    by (simp add: vtkCook_inner_spec surface acc cands accd st)
qed

lemma frac_frac_add: "frac (frac u + a) = frac (u + (a::real))"
proof -
  have "frac u + a = (u + a) - of_int \<lfloor>u\<rfloor>" by (simp add: frac_def)
  then show ?thesis by (simp only: frac_def floor_diff_of_int)
qed

lemma zip_map_zip: "zip (map f (zip xs ys)) ys = map (\<lambda>p. (f p, snd p)) (zip xs ys)"
proof (induction xs arbitrary: ys)
  case Nil
  show ?case by simp
next
  case (Cons x xs)
  show ?case by (cases ys) (simp_all add: Cons)
qed

lemma rejection_loop_generator:
  "ls_iteration_count s \<le> ls_iteration_count (rejection_loop E du surface bnds N budget s) \<and>
   ls_gen (rejection_loop E du surface bnds N budget s) =
     generator_after E du bnds (ls_gen s)
       (nat (ls_iteration_count (rejection_loop E du surface bnds N budget s) - ls_iteration_count s))"
proof (induction E du surface bnds N budget s rule: rejection_loop.induct)
  case (1 E du surface bnds N budget s)
  show ?case
  proof (cases "ls_i s < N \<and> ls_iteration_count s < budget")
    case False
    then show ?thesis by (simp add: rejection_loop_stop)
  next
    case True
    obtain c g where d: "draw_candidate E du bnds (ls_gen s) = (c, g)"
      by (cases "draw_candidate E du bnds (ls_gen s)")
    let ?s' = "loop_body E du surface bnds s"
    let ?r = "rejection_loop E du surface bnds N budget ?s'"
    have unfold: "rejection_loop E du surface bnds N budget s = ?r"
      using True by (simp add: rejection_loop.simps [of E du surface bnds N budget s])
    have s': "ls_iteration_count ?s' = ls_iteration_count s + 1" "ls_gen ?s' = g"
      by (simp_all add: loop_body_cases [OF d])
    from "1.IH" [OF True] s'
    have le: "ls_iteration_count s + 1 \<le> ls_iteration_count ?r"
      and gen: "ls_gen ?r = generator_after E du bnds g (nat (ls_iteration_count ?r - (ls_iteration_count s + 1)))"
      by simp_all
    have "nat (ls_iteration_count ?r - ls_iteration_count s) =
        Suc (nat (ls_iteration_count ?r - (ls_iteration_count s + 1)))"
      using le by linarith
    then show ?thesis
      unfolding unfold using le gen d by simp
  qed
qed

lemma sampler_loop_generator:
  "0 \<le> ls_iteration_count (sampler_loop E m N du auto tri) \<and>
   ls_gen (sampler_loop E m N du auto tri) =
     generator_after E du (GetBounds E m) (rng_New E, ar_New E)
       (nat (ls_iteration_count (sampler_loop E m N du auto tri)))"
  using rejection_loop_generator [of "\<lparr>ls_i = 0, ls_iteration_count = 0,
        ls_points = SetNumberOfTuples (junk_point E) N [],
        ls_distance_arr = SetNumberOfTuples (junk_value E) N [],
        ls_gen = (rng_New E, ar_New E)\<rparr>" E du "distance_input E m auto tri" "GetBounds E m" N "int32_mult 10 N"]
  by (simp add: sampler_loop_def)

section \<open>The mesh behind the distance predicate, step by step\<close>

declare sqrt_nat.simps [simp del]

lemma sqrt_nat_bounds: "sqrt_nat n * sqrt_nat n \<le> n \<and> n < (sqrt_nat n + 1) * (sqrt_nat n + 1)"
proof (induction n rule: sqrt_nat.induct)
  case (1 n)
  show ?case
  proof (cases "n < 2")
    case True
    then have "n = 0 \<or> n = 1" by auto
    then show ?thesis by (auto simp: sqrt_nat.simps [of n])
  next
    case False
    let ?s = "sqrt_nat (n div 4)"
    let ?r = "2 * ?s"
    from "1.IH" [OF False] have ih: "?s * ?s \<le> n div 4" "n div 4 < (?s + 1) * (?s + 1)"
      by simp_all
    have lo: "?r * ?r \<le> n"
    proof -
      have "?r * ?r = 4 * (?s * ?s)" by simp
      also have "\<dots> \<le> 4 * (n div 4)" using ih(1) by simp
      also have "\<dots> \<le> n" by simp
      finally show ?thesis .
    qed
    have hi: "n < (?r + 2) * (?r + 2)"
    proof -
      have "n div 4 + 1 \<le> (?s + 1) * (?s + 1)" using ih(2) by simp
      then have "4 * (n div 4 + 1) \<le> 4 * ((?s + 1) * (?s + 1))" by simp
      moreover have "n < 4 * (n div 4 + 1)" by simp
      moreover have "4 * ((?s + 1) * (?s + 1)) = (?r + 2) * (?r + 2)" by (simp add: algebra_simps)
      ultimately show ?thesis by linarith
    qed
    show ?thesis
    proof (cases "(?r + 1) * (?r + 1) \<le> n")
      case True
      with False have "sqrt_nat n = ?r + 1" by (simp add: sqrt_nat.simps [of n] Let_def)
      with True hi show ?thesis by (simp add: algebra_simps)
    next
      case False': False
      with False have "sqrt_nat n = ?r" by (simp add: sqrt_nat.simps [of n] Let_def)
      with False' lo show ?thesis by simp
    qed
  qed
qed

lemma sqrt_nat_unique:
  assumes "k * k \<le> n" and "n < (k + 1) * (k + 1)"
  shows "sqrt_nat n = k"
proof (rule ccontr)
  let ?s = "sqrt_nat n"
  assume "?s \<noteq> k"
  then consider "?s + 1 \<le> k" | "k + 1 \<le> ?s" by linarith
  then show False
  proof cases
    case 1
    then have "(?s + 1) * (?s + 1) \<le> k * k" by (intro mult_le_mono)
    with assms(1) sqrt_nat_bounds [of n] show False by linarith
  next
    case 2
    then have "(k + 1) * (k + 1) \<le> ?s * ?s" by (intro mult_le_mono)
    with assms(2) sqrt_nat_bounds [of n] show False by linarith
  qed
qed

lemma floor_sqrt_unique:
  fixes k n :: nat
  assumes "k * k \<le> n" and "n < (k + 1) * (k + 1)"
  shows "\<lfloor>sqrt (real n)\<rfloor> = int k"
proof -
  have "real (k * k) \<le> real n"
    using assms(1) by (simp only: of_nat_le_iff)
  then have "real k * real k \<le> real n"
    by simp
  then have lo: "real k \<le> sqrt (real n)"
    by (intro real_le_rsqrt) (simp add: power2_eq_square)
  have "real n < real ((k + 1) * (k + 1))"
    using assms(2) by (simp only: of_nat_less_iff)
  then have "real n < (real k + 1) * (real k + 1)"
    by (simp add: algebra_simps)
  then have hi: "sqrt (real n) < real k + 1"
    by (intro real_less_lsqrt) (simp_all add: power2_eq_square)
  show ?thesis
    by (rule floor_unique) (use lo hi in simp_all)
qed

lemma sqrt_to_int_floor: "0 \<le> n \<Longrightarrow> sqrt_to_int n = \<lfloor>sqrt (real_of_int n)\<rfloor>"
proof -
  assume n: "0 \<le> n"
  have "\<lfloor>sqrt (real (nat n))\<rfloor> = int (sqrt_nat (nat n))"
    using sqrt_nat_bounds [of "nat n"] by (intro floor_sqrt_unique) simp_all
  with n show ?thesis by (simp add: sqrt_to_int_def)
qed

lemma target_polycount_ge: "1000 \<le> target_polycount n"
  by (simp add: target_polycount_def sqrt_to_int_def)

lemma target_reduction_less_1:
  assumes "0 \<le> n"
  shows "double_less (target_reduction n) (Finite 1) = (target_polycount n < n)"
proof (cases "n = 0")
  case True
  with target_polycount_ge [of n] show ?thesis
    by (simp add: target_reduction_def double_quotient_def)
next
  case False
  with assms have "0 < real_of_int n" by simp
  then have "(real_of_int (target_polycount n) / real_of_int n < 1) = (target_polycount n < n)"
    by (simp add: divide_less_eq)
  with False show ?thesis
    by (simp add: target_reduction_def double_quotient_def)
qed

lemma target_reduction_Finite:
  "n \<noteq> 0 \<Longrightarrow> target_reduction n = Finite (real_of_int (target_polycount n) / real_of_int n)"
  by (simp add: target_reduction_def double_quotient_def)

lemma GetNumberOfPolys_nonneg: "0 \<le> GetNumberOfPolys m"
  by (simp add: GetNumberOfPolys_def)

lemma distance_input_triggered:
  assumes "100 < GetNumberOfPolys m"
  shows "distance_input E m True False =
     (let input_triangle_mesh = vtk_filter E ''vtkTriangleFilter'' [] [m];
          input_polycount = GetNumberOfPolys input_triangle_mesh
      in if target_polycount input_polycount < input_polycount
         then vtk_filter E ''vtkQuadricDecimation''
                [(''TargetReduction'',
                  D (Finite (real_of_int (target_polycount input_polycount) / real_of_int input_polycount)))]
                [input_triangle_mesh]
         else m)"
proof -
  let ?n = "GetNumberOfPolys (vtk_filter E ''vtkTriangleFilter'' [] [m])"
  have less: "double_less (target_reduction ?n) (Finite 1) = (target_polycount ?n < ?n)"
    by (rule target_reduction_less_1) (rule GetNumberOfPolys_nonneg)
  have fin: "target_reduction ?n = Finite (real_of_int (target_polycount ?n) / real_of_int ?n)"
    if "target_polycount ?n < ?n"
    using that target_polycount_ge [of ?n] by (intro target_reduction_Finite) linarith
  show ?thesis
    using assms fin by (simp add: distance_input_def Let_def less)
qed

lemma target_polycount_eq:
  "int (k * k) \<le> n \<Longrightarrow> n < int ((k + 1) * (k + 1)) \<Longrightarrow> target_polycount n = 1000 + int k"
proof -
  assume a: "int (k * k) \<le> n" "n < int ((k + 1) * (k + 1))"
  then have "k * k \<le> nat n" "nat n < (k + 1) * (k + 1)" by linarith+
  then have "sqrt_nat (nat n) = k" by (rule sqrt_nat_unique)
  then show ?thesis by (simp add: target_polycount_def sqrt_to_int_def)
qed

lemma GetNumberOfPolys_triangles_mesh [simp]: "GetNumberOfPolys (triangles_mesh k) = int k"
  by (simp add: GetNumberOfPolys_def triangles_mesh_def)

lemma vtk_filter_unit_env [simp]: "vtk_filter (unit_env d) name settings (m # ms) = m"
  by (simp add: unit_env_def)

section \<open>The generators, step by step\<close>

lemma get_random_uniform_step_read:
  "get_random_uniform E du g i low high =
     (generator_read E du (generator_step E du g) i low high, generator_step E du g)"
  by (simp add: get_random_uniform_def generator_read_def generator_step_def Let_def)

lemma draw_candidate_step_read:
  "draw_candidate E du (b0, b1, b2, b3, b4, b5) g =
     ((generator_read E du (generator_step E du g) 0 b0 b1,
       generator_read E du (generator_step E du (generator_step E du g)) 1 b2 b3,
       generator_read E du (generator_step E du (generator_step E du (generator_step E du g))) 2 b4 b5),
      generator_step E du (generator_step E du (generator_step E du g)))"
  by (simp add: draw_candidate_def get_random_uniform_step_read)

lemma keeps_rangeD:
  assumes "keeps_range E du" and "0 \<le> i" and "i < 3" and "finite_le low high"
  shows "double_ge (generator_read E du ((generator_step E du ^^ Suc n) (rng_New E, ar_New E)) i low high) low"
    and "double_ge high (generator_read E du ((generator_step E du ^^ Suc n) (rng_New E, ar_New E)) i low high)"
  using assms unfolding keeps_range_def by blast+

lemma candidates_inside_bounds:
  assumes k: "keeps_range E du" and b: "proper_bounds bnds"
  shows "c \<in> set (candidates E du bnds ((generator_step E du ^^ j) (rng_New E, ar_New E)) n)
         \<Longrightarrow> inside_bounds bnds c"
proof (induction n arbitrary: j)
  case 0
  then show ?case by simp
next
  case (Suc n)
  obtain b0 b1 b2 b3 b4 b5 where bnds: "bnds = (b0, b1, b2, b3, b4, b5)"
    by (metis surj_pair)
  from b have fin: "finite_le b0 b1" "finite_le b2 b3" "finite_le b4 b5"
    by (simp_all add: proper_bounds_def bnds)
  let ?g = "(generator_step E du ^^ j) (rng_New E, ar_New E)"
  let ?c = "(generator_read E du ((generator_step E du ^^ Suc j) (rng_New E, ar_New E)) 0 b0 b1,
       generator_read E du ((generator_step E du ^^ Suc (Suc j)) (rng_New E, ar_New E)) 1 b2 b3,
       generator_read E du ((generator_step E du ^^ Suc (Suc (Suc j))) (rng_New E, ar_New E)) 2 b4 b5)"
  have d: "draw_candidate E du bnds ?g = (?c, (generator_step E du ^^ (j + 3)) (rng_New E, ar_New E))"
    by (simp add: bnds draw_candidate_step_read eval_nat_numeral)
  have "inside_bounds bnds ?c"
    unfolding bnds inside_bounds_def
    using keeps_rangeD [OF k _ _ fin(1), of 0 j] keeps_rangeD [OF k _ _ fin(2), of 1 "Suc j"]
      keeps_rangeD [OF k _ _ fin(3), of 2 "Suc (Suc j)"]
    by simp
  moreover from Suc.prems d
  have "c = ?c \<or> c \<in> set (candidates E du bnds ((generator_step E du ^^ (j + 3)) (rng_New E, ar_New E)) n)"
    by simp
  ultimately show ?case using Suc.IH [of "j + 3"] by blast
qed

lemma cook_candidates_inside_bounds:
  assumes "keeps_range E du" and "proper_bounds (GetBounds E m)"
  shows "list_all (inside_bounds (GetBounds E m)) (cook_candidates E m N du)"
  unfolding list_all_iff cook_candidates_def
  using candidates_inside_bounds [OF assms, of _ 0] by simp

lemma cook_accepted_subset:
  "set (cook_accepted E m N du auto tri) \<subseteq>
     {c \<in> set (cook_candidates E m N du). accepted E (distance_input E m auto tri) c}"
proof
  fix c assume "c \<in> set (cook_accepted E m N du auto tri)"
  then have "c \<in> set (filter (accepted E (distance_input E m auto tri)) (cook_candidates E m N du))"
    unfolding cook_accepted_def by (rule in_set_takeD)
  then show "c \<in> {c \<in> set (cook_candidates E m N du). accepted E (distance_input E m auto tri) c}"
    by simp
qed

section \<open>The additive recurrence, step by step\<close>

lemma recurrence_Next:
  "AdditiveRecurrence_Next alpha (recurrence_state alpha start n) = recurrence_state alpha start (Suc n)"
  by (simp add: AdditiveRecurrence_Next_def recurrence_state_def zip_map_zip frac_frac_add split_def
      algebra_simps)

lemma recurrence_Next_start:
  "AdditiveRecurrence_Next alpha start = recurrence_state alpha start (Suc 0)"
  by (simp add: AdditiveRecurrence_Next_def recurrence_state_def)

lemma recurrence_steps:
  "(AdditiveRecurrence_Next alpha ^^ Suc n) start = recurrence_state alpha start (Suc n)"
proof (induction n)
  case 0
  show ?case by (simp add: recurrence_Next_start)
next
  case (Suc n)
  have "(AdditiveRecurrence_Next alpha ^^ Suc (Suc n)) start =
      AdditiveRecurrence_Next alpha ((AdditiveRecurrence_Next alpha ^^ Suc n) start)"
    by simp
  then show ?case by (simp only: Suc recurrence_Next)
qed

lemma generator_steps_AdditiveRecurrence:
  "(generator_step (with_AdditiveRecurrence alpha start E) True ^^ n) (v, s) =
     (v, (AdditiveRecurrence_Next alpha ^^ n) s)"
  by (induction n) (simp_all add: generator_step_def with_AdditiveRecurrence_def)

lemma recurrence_state_length:
  "length (recurrence_state alpha start n) = min (length start) (length alpha)"
  by (simp add: recurrence_state_def)

lemma recurrence_state_nth:
  assumes "i < length start" and "i < length alpha"
  shows "0 \<le> recurrence_state alpha start n ! i \<and> recurrence_state alpha start n ! i < 1"
  using assms by (simp add: recurrence_state_def frac_lt_1)

lemma range_value_between:
  fixes lo hi x :: real
  assumes "lo \<le> hi" and "0 \<le> x" and "x < 1"
  shows "lo \<le> lo + x * (hi - lo)" and "lo + x * (hi - lo) \<le> hi"
proof -
  from assms have "0 \<le> x * (hi - lo)" by simp
  then show "lo \<le> lo + x * (hi - lo)" by simp
  from assms have "x * (hi - lo) \<le> 1 * (hi - lo)"
    by (intro mult_right_mono) simp_all
  then show "lo + x * (hi - lo) \<le> hi" by simp
qed

lemma keeps_range_AdditiveRecurrence:
  assumes "3 \<le> length alpha" and "3 \<le> length start"
  shows "keeps_range (with_AdditiveRecurrence alpha start E) True"
  unfolding keeps_range_def
proof (intro allI impI)
  fix n :: nat and i :: int and low high :: double
  assume a: "0 \<le> i \<and> i < 3 \<and> finite_le low high"
  then obtain lo hi where lh: "low = Finite lo" "high = Finite hi" "lo \<le> hi"
    by (cases low; cases high) simp_all
  let ?E = "with_AdditiveRecurrence alpha start E"
  let ?xs = "recurrence_state alpha start (Suc n)"
  have st: "(generator_step ?E True ^^ Suc n) (rng_New ?E, ar_New ?E) = (rng_New ?E, ?xs)"
    using generator_steps_AdditiveRecurrence [where alpha = alpha and start = start and E = E
        and n = "Suc n" and v = "rng_New ?E" and s = start]
      recurrence_steps [where alpha = alpha and n = n and start = start]
    by (simp add: with_AdditiveRecurrence_def)
  from a assms have i: "nat i < length start" "nat i < length alpha" by linarith+
  then have len: "nat i < length ?xs" by (simp add: recurrence_state_length)
  have rd: "generator_read ?E True (rng_New ?E, ?xs) i low high = Finite (lo + ?xs ! nat i * (hi - lo))"
    using a len by (simp add: generator_read_def with_AdditiveRecurrence_def
        AdditiveRecurrence_GetRangeValue_def lh)
  from recurrence_state_nth [OF i, of "Suc n"] range_value_between [OF lh(3), of "?xs ! nat i"]
  show "double_ge (generator_read ?E True ((generator_step ?E True ^^ Suc n) (rng_New ?E, ar_New ?E)) i low high) low \<and>
        double_ge high (generator_read ?E True ((generator_step ?E True ^^ Suc n) (rng_New ?E, ar_New ?E)) i low high)"
    unfolding st rd by (simp add: lh)
qed

lemma accepted_with_AdditiveRecurrence [simp]:
  "accepted (with_AdditiveRecurrence alpha start E) = accepted E"
  by (simp add: fun_eq_iff accepted_def signed_distance_def with_AdditiveRecurrence_def)

lemma GetBounds_with_AdditiveRecurrence [simp]:
  "GetBounds (with_AdditiveRecurrence alpha start E) = GetBounds E"
  by (simp add: with_AdditiveRecurrence_def)

lemma distance_input_with_AdditiveRecurrence [simp]:
  "distance_input (with_AdditiveRecurrence alpha start E) = distance_input E"
proof -
  have "vtk_filter (with_AdditiveRecurrence alpha start E) = vtk_filter E"
    by (simp add: with_AdditiveRecurrence_def)
  then show ?thesis
    by (intro ext) (simp only: distance_input_def)
qed

lemma signed_distance_with_AdditiveRecurrence [simp]:
  "signed_distance (with_AdditiveRecurrence alpha start E) = signed_distance E"
  by (simp add: fun_eq_iff signed_distance_def with_AdditiveRecurrence_def)

lemma draw_candidate_recurrence:
  assumes "AdditiveRecurrence_Next alpha st = recurrence_state alpha start (Suc (3 * k))"
  shows "draw_candidate (with_AdditiveRecurrence alpha start E) True bnds (v, st) =
           (recurrence_candidate alpha start bnds k, (v, recurrence_state alpha start (3 * k + 3)))"
proof -
  obtain b0 b1 b2 b3 b4 b5 where bnds: "bnds = (b0, b1, b2, b3, b4, b5)"
    by (metis surj_pair)
  have s1: "AdditiveRecurrence_Next alpha st = recurrence_state alpha start (3 * k + 1)"
    using assms by simp
  have s2: "AdditiveRecurrence_Next alpha (recurrence_state alpha start (3 * k + 1)) =
      recurrence_state alpha start (3 * k + 2)"
    by (simp add: recurrence_Next)
  have s3: "AdditiveRecurrence_Next alpha (recurrence_state alpha start (3 * k + 2)) =
      recurrence_state alpha start (3 * k + 3)"
    by (simp add: recurrence_Next eval_nat_numeral)
  show ?thesis
    unfolding bnds draw_candidate_step_read
    by (simp only: generator_step_def generator_read_def with_AdditiveRecurrence_def
        env.simps if_True fst_conv snd_conv s1 s2 s3 recurrence_candidate_def prod.case)
qed

lemma candidates_recurrence:
  assumes "AdditiveRecurrence_Next alpha st = recurrence_state alpha start (Suc (3 * k))"
  shows "candidates (with_AdditiveRecurrence alpha start E) True bnds (v, st) n =
           map (\<lambda>j. recurrence_candidate alpha start bnds (k + j)) [0 ..< n]"
  using assms
proof (induction n arbitrary: st k)
  case 0
  show ?case by simp
next
  case (Suc n)
  have nxt: "AdditiveRecurrence_Next alpha (recurrence_state alpha start (3 * k + 3)) =
      recurrence_state alpha start (Suc (3 * Suc k))"
    by (simp add: recurrence_Next)
  have "candidates (with_AdditiveRecurrence alpha start E) True bnds (v, st) (Suc n) =
      recurrence_candidate alpha start bnds k #
      map (\<lambda>j. recurrence_candidate alpha start bnds (Suc k + j)) [0 ..< n]"
    by (simp add: draw_candidate_recurrence [OF Suc.prems] Suc.IH [OF nxt])
  also have "\<dots> = map (\<lambda>j. recurrence_candidate alpha start bnds (k + j)) [0 ..< Suc n]"
    by (simp add: upt_rec [of 0 "Suc n"] map_Suc_upt [symmetric] del: upt_Suc)
  finally show ?case .
qed

lemma cook_candidates_recurrence:
  "cook_candidates (with_AdditiveRecurrence alpha start E) m N True =
     map (recurrence_candidate alpha start (GetBounds E m)) [0 ..< nat (int32_mult 10 N)]"
proof -
  have "AdditiveRecurrence_Next alpha start = recurrence_state alpha start (Suc (3 * 0))"
    by (simp add: recurrence_Next_start)
  from candidates_recurrence [OF this, of E "GetBounds E m" "rng_New E" "nat (int32_mult 10 N)"]
  show ?thesis
    by (simp add: cook_candidates_def with_AdditiveRecurrence_def)
qed

section \<open>The identity checks, step by step\<close>






section \<open>Narrowing, concrete runs and whole cooks, step by step\<close>

lemma accepted_box_env [simp]: "accepted (box_env d) surface c = double_less d (Finite 0)"
  by (simp add: accepted_def signed_distance_def box_env_def unit_env_def split: prod.splits)

lemma GetBounds_box_env:
  "GetBounds (box_env d) m = (Finite 0, Finite 1, Finite 2, Finite 4, Finite (- 3), Finite (- 1))"
  by (simp add: box_env_def)

lemma signed_distance_box_env: "signed_distance (box_env d) surface c = d"
  by (simp add: signed_distance_def box_env_def unit_env_def split: prod.splits)

lemma to_float_box_env: "to_float (box_env d) = to_quarters"
  by (simp add: box_env_def)

lemma to_quarters_mono: "double_ge a b \<Longrightarrow> double_ge (to_quarters a) (to_quarters b)"
proof (cases a; cases b)
  fix x y assume "double_ge a b" and "a = Finite x" and "b = Finite y"
  then have "y \<le> x" by simp
  then have "\<lfloor>4 * y\<rfloor> \<le> \<lfloor>4 * x\<rfloor>" by (intro floor_mono) simp
  then show ?thesis by (simp add: \<open>a = Finite x\<close> \<open>b = Finite y\<close> divide_right_mono)
qed simp_all

lemma keeps_order_box_env: "keeps_order (box_env d)"
  by (simp add: keeps_order_def to_float_box_env to_quarters_mono)

lemma to_float_with_AdditiveRecurrence [simp]:
  "to_float (with_AdditiveRecurrence alpha start E) = to_float E"
  by (simp add: with_AdditiveRecurrence_def)

lemma keeps_order_with_AdditiveRecurrence [simp]:
  "keeps_order (with_AdditiveRecurrence alpha start E) = keeps_order E"
  by (simp add: keeps_order_def)

lemma stored_point_with_AdditiveRecurrence [simp]:
  "stored_point (with_AdditiveRecurrence alpha start E) = stored_point E"
  by (simp add: fun_eq_iff stored_point_def)

lemma stored_distance_with_AdditiveRecurrence [simp]:
  "stored_distance (with_AdditiveRecurrence alpha start E) = stored_distance E"
  by (simp add: fun_eq_iff stored_distance_def)

lemma keeps_orderD: "keeps_order E \<Longrightarrow> double_ge a b \<Longrightarrow> double_ge (to_float E a) (to_float E b)"
  by (simp add: keeps_order_def)

lemma stored_point_inside_bounds:
  assumes "keeps_order E" and "single_precision_bounds E bnds" and "inside_bounds bnds c"
  shows "inside_bounds bnds (stored_point E c)"
proof -
  obtain b0 b1 b2 b3 b4 b5 where bnds: "bnds = (b0, b1, b2, b3, b4, b5)"
    by (metis surj_pair)
  obtain x y z where c: "c = (x, y, z)" by (metis surj_pair)
  from assms(2) have same: "to_float E b0 = b0" "to_float E b1 = b1" "to_float E b2 = b2"
    "to_float E b3 = b3" "to_float E b4 = b4" "to_float E b5 = b5"
    by (simp_all add: single_precision_bounds_def bnds)
  from assms(3) have i: "double_ge x b0" "double_ge b1 x" "double_ge y b2" "double_ge b3 y"
    "double_ge z b4" "double_ge b5 z"
    by (simp_all add: inside_bounds_def bnds c)
  from i [THEN keeps_orderD [OF assms(1)]] show ?thesis
    by (simp add: inside_bounds_def bnds c stored_point_def same)
qed

lemma double_less_ge: "double_less a b \<Longrightarrow> double_ge b a"
  by (cases a; cases b) simp_all

lemma stored_distance_not_positive:
  assumes "keeps_order E" and "to_float E (Finite 0) = Finite 0" and "accepted E surface c"
  shows "double_ge (Finite 0) (stored_distance E surface c)"
proof -
  from assms(3) have "double_ge (Finite 0) (signed_distance E surface c)"
    by (simp add: accepted_def double_less_ge)
  from keeps_orderD [OF assms(1) this] show ?thesis
    by (simp add: stored_distance_def assms(2))
qed

lemma map_upt_first:
  "map f [0 ..< Suc n] ! 0 = f 0" "take (Suc 0) (map f [0 ..< Suc n]) = [f 0]"
  by (simp_all add: upt_rec [of 0 "Suc n"] del: upt_Suc)



section \<open>The claims\<close>

text \<open>
  C1. For every target count \<open>N \<ge> 0\<close> the loop of the volume sampler ends with at most
  \<open>10 * N\<close> attempts counted and at most \<open>N\<close> points accepted, and the generators have
  drawn one candidate per attempt counted. When no candidate drawn within the budget has a
  negative distance (and \<open>10 * N\<close> is an \<^verbatim>\<open>int\<close>), the loop ends after exactly \<open>10 * N\<close>
  attempts with no point accepted; at \<open>N = 1000\<close> that is after 10000 attempts with fewer
  than 1000 points.
\<close>

theorem sampler_loop_budget:
  assumes "0 \<le> N"
  shows "0 \<le> ls_iteration_count (sampler_loop E m N du auto tri) \<and>
         ls_iteration_count (sampler_loop E m N du auto tri) \<le> 10 * N \<and>
         ls_gen (sampler_loop E m N du auto tri) =
           generator_after E du (GetBounds E m) (rng_New E, ar_New E)
             (nat (ls_iteration_count (sampler_loop E m N du auto tri))) \<and>
         0 \<le> ls_i (sampler_loop E m N du auto tri) \<and>
         ls_i (sampler_loop E m N du auto tri) \<le> N \<and>
         (N \<le> 214748364 \<and>
          (\<forall>c \<in> set (cook_candidates E m N du). \<not> accepted E (distance_input E m auto tri) c)
          \<longrightarrow> ls_iteration_count (sampler_loop E m N du auto tri) = 10 * N \<and>
              ls_i (sampler_loop E m N du auto tri) = 0)"
proof -
  let ?s = "sampler_loop E m N du auto tri"
  let ?init = "\<lparr>ls_i = 0, ls_iteration_count = 0,
        ls_points = SetNumberOfTuples (junk_point E) N [],
        ls_distance_arr = SetNumberOfTuples (junk_value E) N [],
        ls_gen = (rng_New E, ar_New E)\<rparr>"
  note gen = sampler_loop_generator [of E m N du auto tri]
  have "ls_iteration_count ?s \<le> max 0 (int32_mult 10 N)"
    using rejection_loop_count_max [of E du _ _ N "int32_mult 10 N" ?init]
    by (simp add: sampler_loop_def)
  then have t: "ls_iteration_count ?s \<le> 10 * N"
    using int32_mult_le [OF assms] assms by linarith
  have i: "0 \<le> ls_i ?s" "ls_i ?s \<le> N"
    using sampler_loop_spec [of E m N du auto tri] cook_accepted_length [of E m N du auto tri] assms
    by linarith+
  have "ls_iteration_count ?s = 10 * N \<and> ls_i ?s = 0"
    if small: "N \<le> 214748364"
      and never: "\<forall>c \<in> set (cook_candidates E m N du). \<not> accepted E (distance_input E m auto tri) c"
  proof -
    have "cook_accepted E m N du auto tri = []"
      using never by (simp add: cook_accepted_def)
    then have i0: "ls_i ?s = 0"
      using sampler_loop_spec [of E m N du auto tri] by simp
    have "\<not> (ls_i ?s < N \<and> ls_iteration_count ?s < int32_mult 10 N)"
      unfolding sampler_loop_def by (rule rejection_loop_exit)
    then have "N = 0 \<or> 10 * N \<le> ls_iteration_count ?s"
      using i0 assms int32_mult_exact [OF assms small] by auto
    moreover have "ls_iteration_count ?s = 0" if "N = 0"
      using that by (simp add: sampler_loop_def rejection_loop_stop)
    ultimately show ?thesis using t i0 by auto
  qed
  with t i gen show ?thesis by blast
qed

theorem sampler_loop_budget_witness:
  "ls_iteration_count (sampler_loop (unit_env (Finite 1)) triangle_mesh 1000 True True False) = 10000 \<and>
   ls_i (sampler_loop (unit_env (Finite 1)) triangle_mesh 1000 True True False) = 0 \<and>
   ls_i (sampler_loop (unit_env (Finite 1)) triangle_mesh 1000 True True False) < 1000"
  using sampler_loop_budget [of 1000 "unit_env (Finite 1)" triangle_mesh True True False]
  by simp

text \<open>
  C2. When the loop ends with fewer than \<open>N\<close> accepted points, the budget is used up, the
  point array and the distance array are both cut to the accepted count \<open>i\<close>, the
  warning is printed, and the cook returns \<^verbatim>\<open>kOfxStatOK\<close>.
\<close>

theorem budget_exhausted_truncates:
  assumes "ls_i (sampler_loop E m N du auto tri) < N"
  shows "status (vtkCook_inner E m out N du auto tri) = kOfxStatOK \<and>
         Points (output_polydata (vtkCook_inner E m out N du auto tri)) =
           take (nat (ls_i (sampler_loop E m N du auto tri))) (ls_points (sampler_loop E m N du auto tri)) \<and>
         GetArray (PointData (output_polydata (vtkCook_inner E m out N du auto tri))) ''distance'' =
           Some (take (nat (ls_i (sampler_loop E m N du auto tri)))
                   (ls_distance_arr (sampler_loop E m N du auto tri))) \<and>
         length (Points (output_polydata (vtkCook_inner E m out N du auto tri))) =
           nat (ls_i (sampler_loop E m N du auto tri)) \<and>
         map_option length
           (GetArray (PointData (output_polydata (vtkCook_inner E m out N du auto tri))) ''distance'') =
           Some (nat (ls_i (sampler_loop E m N du auto tri))) \<and>
         printed (vtkCook_inner E m out N du auto tri) =
           [Gave_up (ls_iteration_count (sampler_loop E m N du auto tri))
              (ls_i (sampler_loop E m N du auto tri))] \<and>
         int32_mult 10 N \<le> ls_iteration_count (sampler_loop E m N du auto tri)"
proof -
  let ?s = "sampler_loop E m N du auto tri"
  have spec: "ls_i ?s = int (length (cook_accepted E m N du auto tri))"
    "length (ls_points ?s) = nat N" "length (ls_distance_arr ?s) = nat N"
    using sampler_loop_spec [of E m N du auto tri] cook_accepted_length [of E m N du auto tri]
    by simp_all
  have exit: "\<not> (ls_i ?s < N \<and> ls_iteration_count ?s < int32_mult 10 N)"
    unfolding sampler_loop_def by (rule rejection_loop_exit)
  have le: "nat (ls_i ?s) \<le> nat N" using assms by simp
  show ?thesis
    using assms exit le spec(2,3)
    by (simp add: vtkCook_inner_def Let_def SetNumberOfTuples_shrink GetArray_AddArray)
qed

theorem budget_exhausted_truncates_witness:
  "status (vtkCook_inner (unit_env (Finite 1)) triangle_mesh vtkPolyData_New 1000 True True False) = kOfxStatOK \<and>
   Points (output_polydata (vtkCook_inner (unit_env (Finite 1)) triangle_mesh vtkPolyData_New 1000 True True False)) = [] \<and>
   GetArray (PointData (output_polydata
       (vtkCook_inner (unit_env (Finite 1)) triangle_mesh vtkPolyData_New 1000 True True False))) ''distance'' = Some []"
proof -
  have i: "ls_i (sampler_loop (unit_env (Finite 1)) triangle_mesh 1000 True True False) = 0"
    using sampler_loop_spec [of "unit_env (Finite 1)" triangle_mesh 1000 True True False]
    by (simp add: cook_accepted_def)
  then have "ls_i (sampler_loop (unit_env (Finite 1)) triangle_mesh 1000 True True False) < 1000"
    by simp
  from budget_exhausted_truncates [OF this, of vtkPolyData_New] show ?thesis
    by (simp add: i)
qed

text \<open>
  C3, as the code has it. With \<^verbatim>\<open>auto_simplify\<close> set, an input of at most 100 polygons is
  handed to the distance predicate as it is. With more than 100, the input is triangulated
  and the target count is \<open>1000\<close> plus the square root of the triangulated count,
  truncated (not rounded); the decimator runs only if that target is below the
  triangulated count.
\<close>

theorem simplification_threshold:
  assumes "0 \<le> n"
  shows "(GetNumberOfPolys m \<le> 100 \<longrightarrow> distance_input E m True tri = m) \<and>
         target_polycount n = 1000 + \<lfloor>sqrt (real_of_int n)\<rfloor> \<and>
         (100 < GetNumberOfPolys m \<longrightarrow>
          distance_input E m True False =
            (let input_triangle_mesh = vtk_filter E ''vtkTriangleFilter'' [] [m];
                 input_polycount = GetNumberOfPolys input_triangle_mesh
             in if target_polycount input_polycount < input_polycount
                then vtk_filter E ''vtkQuadricDecimation''
                       [(''TargetReduction'',
                         D (Finite (real_of_int (target_polycount input_polycount) / real_of_int input_polycount)))]
                       [input_triangle_mesh]
                else m))"
  using assms
  by (simp add: distance_input_triggered target_polycount_def sqrt_to_int_floor)
     (simp add: distance_input_def)

theorem simplification_threshold_witness:
  "distance_input (unit_env (Finite 1)) (triangles_mesh 100) True False = triangles_mesh 100 \<and>
   target_polycount 101 = 1010 \<and>
   distance_input (unit_env (Finite 1)) (triangles_mesh 101) True False = triangles_mesh 101 \<and>
   distance_input (unit_env (Finite 1)) (triangles_mesh 2000) True False =
     vtk_filter (unit_env (Finite 1)) ''vtkQuadricDecimation''
       [(''TargetReduction'', D (Finite (1044 / 2000)))] [triangles_mesh 2000]"
proof -
  have t101: "target_polycount 101 = 1000 + int 10" by (rule target_polycount_eq) simp_all
  have t2000: "target_polycount 2000 = 1000 + int 44" by (rule target_polycount_eq) simp_all
  show ?thesis
    using simplification_threshold [of 101 "triangles_mesh 100" "unit_env (Finite 1)" False]
      simplification_threshold [of 101 "triangles_mesh 101" "unit_env (Finite 1)" False]
      simplification_threshold [of 101 "triangles_mesh 2000" "unit_env (Finite 1)" False]
    by (simp add: t101 t2000 Let_def)
qed

text \<open>
  C3 as written, with the square root rounded, fails at a triangulated count of 1057: the
  square root is 32.51, the code computes 1032, rounding gives 1033.
\<close>

theorem target_polycount_truncates:
  "target_polycount 1057 = 1032 \<and> 1000 + round (sqrt (real_of_int 1057)) = 1033 \<and>
   target_polycount 1057 \<noteq> 1000 + round (sqrt (real_of_int 1057))"
proof -
  have t: "target_polycount 1057 = 1000 + int 32" by (rule target_polycount_eq) simp_all
  have lo: "65 / 2 \<le> sqrt (1057::real)"
    by (rule real_le_rsqrt) (simp add: power2_eq_square)
  have hi: "sqrt (1057::real) < 67 / 2"
    by (rule real_less_lsqrt) (simp_all add: power2_eq_square)
  have "round (sqrt (1057::real)) = 33"
    unfolding round_def by (rule floor_unique) (use lo hi in simp_all)
  with t show ?thesis by simp
qed

text \<open>
  C4. When the target is below the triangulated count \<open>n\<close>, the decimator is given the
  ratio \<open>target / n\<close> as its \<^verbatim>\<open>TargetReduction\<close>, the fraction of triangles to remove: it
  is asked to leave \<open>n - target\<close> triangles, not \<open>target\<close>. For a million triangles the
  target is 2000, the reduction 0.002, and 998000 triangles are to stay.
\<close>

theorem decimation_target_reduction:
  assumes "100 < GetNumberOfPolys m"
    and "GetNumberOfPolys (vtk_filter E ''vtkTriangleFilter'' [] [m]) = n"
    and "target_polycount n < n"
  shows "distance_input E m True False =
           vtk_filter E ''vtkQuadricDecimation''
             [(''TargetReduction'', D (Finite (real_of_int (target_polycount n) / real_of_int n)))]
             [vtk_filter E ''vtkTriangleFilter'' [] [m]] \<and>
         polycount_requested n (real_of_int (target_polycount n) / real_of_int n) =
           real_of_int (n - target_polycount n)"
proof -
  have "0 < real_of_int n"
    using assms(3) target_polycount_ge [of n] by simp
  then have "polycount_requested n (real_of_int (target_polycount n) / real_of_int n) =
           real_of_int (n - target_polycount n)"
    by (simp add: polycount_requested_def field_simps)
  then show ?thesis
    using assms by (simp add: distance_input_triggered Let_def)
qed

theorem decimation_target_reduction_witness:
  "target_polycount 1000000 = 2000 \<and>
   distance_input (unit_env (Finite 1)) (triangles_mesh 1000000) True False =
     vtk_filter (unit_env (Finite 1)) ''vtkQuadricDecimation''
       [(''TargetReduction'', D (Finite (2000 / 1000000)))] [triangles_mesh 1000000] \<and>
   polycount_requested 1000000 (2000 / 1000000) = 998000"
proof -
  have t: "target_polycount 1000000 = 1000 + int 1000" by (rule target_polycount_eq) simp_all
  show ?thesis
    using decimation_target_reduction [of "triangles_mesh 1000000" "unit_env (Finite 1)" 1000000]
    by (simp add: t)
qed

text \<open>
  C5. The points of the output are the accepted candidates in the order drawn, each as
  \<^verbatim>\<open>SetPoint\<close> narrows it, and the distance array holds the distance of each at the same
  index, as \<^verbatim>\<open>SetValue\<close> narrows it. Every accepted candidate is a candidate whose
  distance is \<^verbatim>\<open>< 0\<close>, so none has a distance \<^verbatim>\<open>>= 0\<close>. When the generator in use keeps
  every value it reads within the range it is given and the bounds of the input are finite
  with each minimum at most its maximum, every accepted candidate lies within the bounds,
  each coordinate within the bounds of its own axis; so does every stored point when the
  narrowing keeps the order of doubles and leaves the bounds as they are. A stored
  distance is then never above zero (the narrowing may take a negative distance to zero).
  When at least \<open>N\<close> of the first \<open>10 * N\<close> candidates are accepted (and \<open>10 * N\<close> is an
  \<^verbatim>\<open>int\<close>), the output holds exactly \<open>N\<close> points and \<open>N\<close> distances and nothing is
  printed.
\<close>

theorem accepted_points_inside:
  "Points (output_polydata (vtkCook_inner E m out N du auto tri)) =
     map (stored_point E) (cook_accepted E m N du auto tri) \<and>
   GetArray (PointData (output_polydata (vtkCook_inner E m out N du auto tri))) ''distance'' =
     Some (map (stored_distance E (distance_input E m auto tri)) (cook_accepted E m N du auto tri)) \<and>
   list_all (\<lambda>c. c \<in> set (cook_candidates E m N du) \<and>
                double_less (signed_distance E (distance_input E m auto tri) c) (Finite 0) \<and>
                \<not> double_ge (signed_distance E (distance_input E m auto tri) c) (Finite 0))
     (cook_accepted E m N du auto tri) \<and>
   (keeps_range E du \<and> proper_bounds (GetBounds E m) \<longrightarrow>
      list_all (inside_bounds (GetBounds E m)) (cook_accepted E m N du auto tri)) \<and>
   (keeps_range E du \<and> proper_bounds (GetBounds E m) \<and>
    keeps_order E \<and> single_precision_bounds E (GetBounds E m) \<longrightarrow>
      list_all (inside_bounds (GetBounds E m))
        (Points (output_polydata (vtkCook_inner E m out N du auto tri)))) \<and>
   (keeps_order E \<and> to_float E (Finite 0) = Finite 0 \<longrightarrow>
      list_all (\<lambda>c. double_ge (Finite 0) (stored_distance E (distance_input E m auto tri) c))
        (cook_accepted E m N du auto tri)) \<and>
   (0 \<le> N \<and> N \<le> 214748364 \<and>
    nat N \<le> length (filter (accepted E (distance_input E m auto tri))
                     (candidates E du (GetBounds E m) (rng_New E, ar_New E) (nat (10 * N))))
    \<longrightarrow> length (Points (output_polydata (vtkCook_inner E m out N du auto tri))) = nat N \<and>
        map_option length
          (GetArray (PointData (output_polydata (vtkCook_inner E m out N du auto tri))) ''distance'') =
          Some (nat N) \<and>
        printed (vtkCook_inner E m out N du auto tri) = [])"
proof -
  let ?acc = "cook_accepted E m N du auto tri"
  let ?surface = "distance_input E m auto tri"
  let ?r = "vtkCook_inner E m out N du auto tri"
  have pts: "Points (output_polydata ?r) = map (stored_point E) ?acc"
    and dist: "GetArray (PointData (output_polydata ?r)) ''distance'' = Some (map (stored_distance E ?surface) ?acc)"
    and prt: "printed ?r =
       (if int (length ?acc) < N
        then [Gave_up (ls_iteration_count (sampler_loop E m N du auto tri)) (int (length ?acc))]
        else [])"
    by (simp_all add: vtkCook_inner_output GetArray_AddArray)
  have sub: "c \<in> set (cook_candidates E m N du) \<and> accepted E ?surface c" if "c \<in> set ?acc" for c
    using that cook_accepted_subset [of E m N du auto tri] by blast
  have sign: "list_all (\<lambda>c. c \<in> set (cook_candidates E m N du) \<and>
                double_less (signed_distance E ?surface c) (Finite 0) \<and>
                \<not> double_ge (signed_distance E ?surface c) (Finite 0)) ?acc"
    unfolding list_all_iff using sub by (auto simp: accepted_def double_less_not_ge)
  have box: "list_all (inside_bounds (GetBounds E m)) ?acc"
    if "keeps_range E du" "proper_bounds (GetBounds E m)"
    using cook_candidates_inside_bounds [OF that, of N] sub
    unfolding list_all_iff by blast
  have stored_box: "list_all (inside_bounds (GetBounds E m)) (map (stored_point E) ?acc)"
    if "keeps_range E du" "proper_bounds (GetBounds E m)" "keeps_order E"
      "single_precision_bounds E (GetBounds E m)"
    using box [OF that(1,2)] stored_point_inside_bounds [OF that(3,4)]
    unfolding list_all_iff by auto
  have stored_sign: "list_all (\<lambda>c. double_ge (Finite 0) (stored_distance E ?surface c)) ?acc"
    if "keeps_order E" "to_float E (Finite 0) = Finite 0"
    unfolding list_all_iff using sub stored_distance_not_positive [OF that] by blast
  have full: "length ?acc = nat N"
    if "0 \<le> N" "N \<le> 214748364"
      "nat N \<le> length (filter (accepted E ?surface)
                           (candidates E du (GetBounds E m) (rng_New E, ar_New E) (nat (10 * N))))"
    using that by (simp add: cook_accepted_def cook_candidates_def int32_mult_exact)
  show ?thesis
    unfolding pts dist prt using sign box stored_box stored_sign full by auto
qed

theorem accepted_points_inside_witness:
  "length (Points (output_polydata
      (vtkCook_inner (with_AdditiveRecurrence [1 / 2, 1 / 3, 1 / 5] [0, 0, 0] (box_env (Finite (- 1))))
         triangle_mesh vtkPolyData_New 200 True True False))) = 200 \<and>
   list_all (inside_bounds (Finite 0, Finite 1, Finite 2, Finite 4, Finite (- 3), Finite (- 1)))
     (Points (output_polydata
      (vtkCook_inner (with_AdditiveRecurrence [1 / 2, 1 / 3, 1 / 5] [0, 0, 0] (box_env (Finite (- 1))))
         triangle_mesh vtkPolyData_New 200 True True False))) \<and>
   list_all (inside_bounds (Finite 0, Finite 1, Finite 2, Finite 4, Finite (- 3), Finite (- 1)))
     (cook_accepted (with_AdditiveRecurrence [1 / 2, 1 / 3, 1 / 5] [0, 0, 0] (box_env (Finite (- 1))))
         triangle_mesh 200 True True False) \<and>
   printed (vtkCook_inner (with_AdditiveRecurrence [1 / 2, 1 / 3, 1 / 5] [0, 0, 0] (box_env (Finite (- 1))))
         triangle_mesh vtkPolyData_New 200 True True False) = []"
proof -
  let ?E = "with_AdditiveRecurrence [1 / 2, 1 / 3, 1 / 5] [0, 0, 0] (box_env (Finite (- 1)))"
  have range: "keeps_range ?E True \<and> proper_bounds (GetBounds ?E triangle_mesh)"
    by (simp add: keeps_range_AdditiveRecurrence proper_bounds_def GetBounds_box_env)
  have narrow: "keeps_order ?E \<and> single_precision_bounds ?E (GetBounds ?E triangle_mesh)"
    by (simp add: keeps_order_box_env single_precision_bounds_def GetBounds_box_env to_float_box_env)
  have enough: "(0::int) \<le> 200 \<and> (200::int) \<le> 214748364 \<and>
      nat 200 \<le> length (filter (accepted ?E (distance_input ?E triangle_mesh True False))
                           (candidates ?E True (GetBounds ?E triangle_mesh) (rng_New ?E, ar_New ?E)
                              (nat (10 * 200))))"
    by (simp add: length_candidates)
  note th = accepted_points_inside [of ?E triangle_mesh vtkPolyData_New 200 True True False]
  from th range narrow have "list_all (inside_bounds (GetBounds ?E triangle_mesh))
     (Points (output_polydata (vtkCook_inner ?E triangle_mesh vtkPolyData_New 200 True True False)))"
    by blast
  moreover from th range have "list_all (inside_bounds (GetBounds ?E triangle_mesh))
     (cook_accepted ?E triangle_mesh 200 True True False)"
    by blast
  moreover from th enough have "length (Points (output_polydata
      (vtkCook_inner ?E triangle_mesh vtkPolyData_New 200 True True False))) = nat 200 \<and>
      printed (vtkCook_inner ?E triangle_mesh vtkPolyData_New 200 True True False) = []"
    by blast
  ultimately show ?thesis by (simp add: GetBounds_box_env)
qed

text \<open>
  C6. For \<open>N = 0\<close> the cook returns \<^verbatim>\<open>kOfxStatOK\<close> with an empty point array and an empty
  distance array and prints nothing; the loop ends in its initial state: no attempt
  counted, both generators as constructed, no candidate within the budget.
\<close>

theorem zero_points_requested:
  "vtkCook_inner E m out 0 du auto tri =
     \<lparr>status = kOfxStatOK,
      output_polydata = out\<lparr>Points := [], PointData := AddArray (''distance'', []) (PointData out)\<rparr>,
      printed = []\<rparr> \<and>
   sampler_loop E m 0 du auto tri =
     \<lparr>ls_i = 0, ls_iteration_count = 0, ls_points = [], ls_distance_arr = [],
      ls_gen = (rng_New E, ar_New E)\<rparr> \<and>
   cook_candidates E m 0 du = []"
proof -
  have s: "sampler_loop E m 0 du auto tri =
     \<lparr>ls_i = 0, ls_iteration_count = 0, ls_points = [], ls_distance_arr = [],
      ls_gen = (rng_New E, ar_New E)\<rparr>"
    by (simp add: sampler_loop_def rejection_loop_stop SetNumberOfTuples_Nil)
  show ?thesis
    by (simp add: vtkCook_inner_def Let_def s cook_candidates_def int32_mult_def)
qed

text \<open>
  C7. With \<^verbatim>\<open>distribute_uniformly\<close> set and the additive recurrence of the spec as the
  generator, candidate \<open>k\<close> of the cook has as coordinates the states \<open>3k+1\<close>, \<open>3k+2\<close>
  and \<open>3k+3\<close> of the recurrence (the start plus that many increments, wrapped modulo 1),
  read on the axes 0, 1 and 2 and mapped into the bounds of that axis. The whole result of
  the cook is given in closed form from these candidates, the kernel's distance and
  narrowing, and the output object: the points are the first \<open>N\<close> candidates with a
  negative distance, the distance array their distances, both as stored. It does not
  change with the pseudo-random sequence of the kernel nor with the contents of fresh
  storage.
\<close>

theorem uniform_sampling_deterministic:
  "cook_candidates (with_AdditiveRecurrence alpha start E) m N True =
     map (recurrence_candidate alpha start (GetBounds E m)) [0 ..< nat (int32_mult 10 N)] \<and>
   vtkCook_inner (with_AdditiveRecurrence alpha start E) m out N True auto tri =
     (let surface = distance_input E m auto tri;
          inside = (\<lambda>c. double_less (signed_distance E surface c) (Finite 0));
          cands = map (recurrence_candidate alpha start (GetBounds E m)) [0 ..< nat (int32_mult 10 N)];
          acc = take (nat N) (filter inside cands)
      in \<lparr>status = kOfxStatOK,
          output_polydata =
            out\<lparr>Points := map (stored_point E) acc,
                PointData := AddArray (''distance'', map (stored_distance E surface) acc) (PointData out)\<rparr>,
          printed = (if int (length acc) < N
                     then [Gave_up (int (attempts (nat N) (map inside cands))) (int (length acc))]
                     else [])\<rparr>) \<and>
   vtkCook_inner
     (with_AdditiveRecurrence alpha start
        (E\<lparr>rng_New := r1, rng_Next := n1, rng_GetRangeValue := v1, junk_point := p1, junk_value := q1\<rparr>))
     m out N True auto tri =
   vtkCook_inner (with_AdditiveRecurrence alpha start E) m out N True auto tri"
proof (intro conjI)
  show "cook_candidates (with_AdditiveRecurrence alpha start E) m N True =
     map (recurrence_candidate alpha start (GetBounds E m)) [0 ..< nat (int32_mult 10 N)]"
    by (rule cook_candidates_recurrence)
  have inside: "accepted E (distance_input E m auto tri) =
      (\<lambda>c. double_less (signed_distance E (distance_input E m auto tri) c) (Finite 0))"
    by (simp add: fun_eq_iff accepted_def)
  show "vtkCook_inner (with_AdditiveRecurrence alpha start E) m out N True auto tri =
     (let surface = distance_input E m auto tri;
          inside = (\<lambda>c. double_less (signed_distance E surface c) (Finite 0));
          cands = map (recurrence_candidate alpha start (GetBounds E m)) [0 ..< nat (int32_mult 10 N)];
          acc = take (nat N) (filter inside cands)
      in \<lparr>status = kOfxStatOK,
          output_polydata =
            out\<lparr>Points := map (stored_point E) acc,
                PointData := AddArray (''distance'', map (stored_distance E surface) acc) (PointData out)\<rparr>,
          printed = (if int (length acc) < N
                     then [Gave_up (int (attempts (nat N) (map inside cands))) (int (length acc))]
                     else [])\<rparr>)"
    unfolding Let_def
    by (simp only: vtkCook_inner_spec cook_accepted_def cook_candidates_recurrence
        accepted_with_AdditiveRecurrence distance_input_with_AdditiveRecurrence
        stored_point_with_AdditiveRecurrence stored_distance_with_AdditiveRecurrence inside)
  show "vtkCook_inner
     (with_AdditiveRecurrence alpha start
        (E\<lparr>rng_New := r1, rng_Next := n1, rng_GetRangeValue := v1, junk_point := p1, junk_value := q1\<rparr>))
     m out N True auto tri =
   vtkCook_inner (with_AdditiveRecurrence alpha start E) m out N True auto tri"
    by (rule vtkCook_inner_uniform) (simp_all add: with_AdditiveRecurrence_def)
qed

theorem uniform_sampling_deterministic_witness:
  "cook_candidates (with_AdditiveRecurrence [1 / 2, 1 / 3, 1 / 5] [0, 0, 0] (box_env (Finite (- 1))))
     triangle_mesh 1 True ! 0 = (Finite (1 / 2), Finite (10 / 3), Finite (- 9 / 5)) \<and>
   Points (output_polydata
     (vtkCook_inner (with_AdditiveRecurrence [1 / 2, 1 / 3, 1 / 5] [0, 0, 0] (box_env (Finite (- 1))))
        triangle_mesh vtkPolyData_New 1 True True False)) =
     [(Finite (1 / 2), Finite (13 / 4), Finite (- 2))]"
proof -
  let ?B = "box_env (Finite (- 1))"
  let ?E = "with_AdditiveRecurrence [1 / 2, 1 / 3, 1 / 5] [0, 0, 0] ?B"
  let ?f = "recurrence_candidate [1 / 2, 1 / 3, 1 / 5] [0, 0, 0] (GetBounds ?B triangle_mesh)"
  have n: "nat (int32_mult 10 1) = Suc 9"
    by (simp add: int32_mult_exact)
  have c0: "?f 0 = (Finite (1 / 2), Finite (10 / 3), Finite (- 9 / 5))"
    by (simp add: GetBounds_box_env recurrence_candidate_def AdditiveRecurrence_GetRangeValue_def
        recurrence_state_def frac_def)
  have s0: "stored_point ?B (Finite (1 / 2), Finite (10 / 3), Finite (- 9 / 5)) =
      (Finite (1 / 2), Finite (13 / 4), Finite (- 2))"
    by (simp add: stored_point_def to_float_box_env)
  have first: "map ?f [0 ..< Suc 9] ! 0 = ?f 0"
    by (rule map_upt_first)
  have "take (Suc 0) (map ?f [0 ..< Suc 9]) = [?f 0]"
    by (rule map_upt_first)
  then have one: "take (nat 1) (map ?f [0 ..< Suc 9]) = [?f 0]"
    by (simp only: nat_1)
  note cands = uniform_sampling_deterministic [where alpha = "[1 / 2, 1 / 3, 1 / 5]" and start = "[0, 0, 0]"
      and E = ?B and m = triangle_mesh and N = 1 and out = vtkPolyData_New and auto = True and tri = False,
      THEN conjunct1]
  note result = uniform_sampling_deterministic [where alpha = "[1 / 2, 1 / 3, 1 / 5]" and start = "[0, 0, 0]"
      and E = ?B and m = triangle_mesh and N = 1 and out = vtkPolyData_New and auto = True and tri = False,
      THEN conjunct2, THEN conjunct1]
  have "cook_candidates ?E triangle_mesh 1 True ! 0 = ?f 0"
    by (simp only: cands n first)
  moreover have "Points (output_polydata (vtkCook_inner ?E triangle_mesh vtkPolyData_New 1 True True False)) =
      map (stored_point ?B) (take (nat 1) (map ?f [0 ..< Suc 9]))"
    unfolding result Let_def n by (simp add: signed_distance_box_env)
  ultimately show ?thesis by (simp only: c0 one s0 list.map)
qed







text \<open>
  C10. The identity checks of Decimate (pro), Decimate (quadric) and Fill holes are false
  exactly when the parameter is \<^verbatim>\<open>>= DBL_EPSILON\<close>: they are true for every finite value
  below \<open>1 / 2 ^ 52\<close>, so for \<open>1e-20\<close> and for every value that is not positive, and for
  minus infinity and NaN.
\<close>

theorem identity_checks_threshold:
  "VtkDecimateProEffect_vtkIsIdentity dp = (\<not> double_ge (dp_TargetReduction dp) DBL_EPSILON) \<and>
   VtkQuadricDecimationEffect_vtkIsIdentity qd = (\<not> double_ge (qd_TargetReduction qd) DBL_EPSILON) \<and>
   VtkFillHolesEffect_vtkIsIdentity fh = (\<not> double_ge (fh_HoleSize fh) DBL_EPSILON) \<and>
   (\<not> double_ge (Finite r) DBL_EPSILON) = (r < 1 / 2 ^ 52) \<and>
   \<not> double_ge (Finite (1 / 10 ^ 20)) DBL_EPSILON \<and>
   \<not> double_ge (Finite (- \<bar>r\<bar>)) DBL_EPSILON \<and>
   \<not> double_ge NegInf DBL_EPSILON \<and> \<not> double_ge NaN DBL_EPSILON \<and>
   double_ge PosInf DBL_EPSILON"
proof -
  have "- \<bar>r\<bar> < 1 / 2 ^ 52"
    by (rule le_less_trans [of _ 0]) simp_all
  then show ?thesis
    by (simp add: VtkDecimateProEffect_vtkIsIdentity_def VtkQuadricDecimationEffect_vtkIsIdentity_def
        VtkFillHolesEffect_vtkIsIdentity_def is_positive_double_def DBL_EPSILON_def not_le)
qed

end
